theory Spec2Isabelle
  imports Complex_Main "HOL-Library.Log_Nat"
begin

section \<open>JavaScript values of a request body\<close>

text \<open>
  The handlers of \<^verbatim>\<open>server.js\<close> read the fields of \<^verbatim>\<open>req.body\<close>, which
  \<^verbatim>\<open>express.json()\<close> has parsed from JSON. A field that is absent reads as
  \<^verbatim>\<open>undefined\<close>, so the value type has that constructor besides the six kinds
  of JSON value. An object keeps its members in the order of the text.
\<close>

datatype jsval =
    Undefined
  | Null
  | Bool bool
  | Num rat
  | Str string
  | Arr "jsval list"
  | Obj "(string \<times> jsval) list"

datatype js_error = TypeError

text \<open>\<^verbatim>\<open>!v\<close> is the negation of \<open>truthy v\<close>: an empty array and an empty object are truthy.\<close>

fun truthy :: "jsval \<Rightarrow> bool" where
  "truthy Undefined = False"
| "truthy Null = False"
| "truthy (Bool b) = b"
| "truthy (Num n) = (n \<noteq> 0)"
| "truthy (Str s) = (s \<noteq> [])"
| "truthy (Arr xs) = True"
| "truthy (Obj kvs) = True"

text \<open>\<^verbatim>\<open>typeof v === 'boolean'\<close>\<close>

fun is_boolean :: "jsval \<Rightarrow> bool" where
  "is_boolean (Bool b) = True"
| "is_boolean v = False"

text \<open>
  \<^verbatim>\<open>v.k\<close> for the names of an entry's fields, \<^verbatim>\<open>studentId\<close>, \<^verbatim>\<open>present\<close> and
  \<^verbatim>\<open>remarks\<close>: reading a property of \<^verbatim>\<open>null\<close> or \<^verbatim>\<open>undefined\<close> throws a
  TypeError; an object parsed from JSON gives its member (the last one when the text
  repeats the name) or \<^verbatim>\<open>undefined\<close>; a string, a number, a boolean and an array
  have no property of these names.
\<close>

fun get_prop :: "jsval \<Rightarrow> string \<Rightarrow> js_error + jsval" where
  "get_prop Undefined k = Inl TypeError"
| "get_prop Null k = Inl TypeError"
| "get_prop (Obj kvs) k = Inr (case map_of (rev kvs) k of None \<Rightarrow> Undefined | Some v \<Rightarrow> v)"
| "get_prop v k = Inr Undefined"

text \<open>
  \<^verbatim>\<open>for (let entry of entries)\<close>: an array yields its elements, a string its
  characters as strings of their own (one per code point in JavaScript, one per byte
  here; either way a non-empty string); a boolean, a number and a plain object are
  not iterable, and the loop throws a TypeError.
\<close>

fun iterate :: "jsval \<Rightarrow> js_error + jsval list" where
  "iterate (Arr xs) = Inr xs"
| "iterate (Str s) = Inr (map (\<lambda>c. Str [c]) s)"
| "iterate v = Inl TypeError"

section \<open>The stored documents\<close>

type_synonym objectId = string

record entry =
  studentId :: objectId
  present :: bool
  remarks :: string

text \<open>
  An \<^verbatim>\<open>ObjectId\<close> is known by its 24 hexadecimal digits, the string
  \<^verbatim>\<open>toString()\<close> returns; the model takes that string for the id. The two
  timestamps Mongoose keeps on an attendance document and the \<^verbatim>\<open>_id\<close> it gives
  each element of \<^verbatim>\<open>entries\<close> are read by no handler and are left out; \<open>att_id\<close> is
  the document's \<^verbatim>\<open>_id\<close>.
\<close>

record attendance =
  att_id :: objectId
  date :: string
  className :: string
  entries :: "entry list"

record student =
  student_id :: objectId
  roll :: int
  student_name :: string
  student_className :: string
  parentPhone :: string

text \<open>
  \<^verbatim>\<open>attendanceSchema.index({ date: 1, className: 1 }, { unique: true })\<close>: the
  collection holds at most one document for a pair of date and class name.
\<close>

definition unique_keys :: "attendance list \<Rightarrow> bool" where
  "unique_keys ledger = distinct (map (\<lambda>r. (date r, className r)) ledger)"

section \<open>Marking attendance\<close>

text \<open>
  Mongoose casts the update against the schema before it reaches the store and throws a
  CastError when a value does not fit. The casts are library code, so they are parameters
  of the model: \<open>castString\<close> for the two String paths \<^verbatim>\<open>date\<close> and \<^verbatim>\<open>className\<close>,
  \<open>castEntry\<close> for one element of the \<^verbatim>\<open>entries\<close> document array (the ObjectId cast
  of \<^verbatim>\<open>studentId\<close>, the default of \<^verbatim>\<open>remarks\<close>). \<open>None\<close> is the CastError.
\<close>

record orm =
  castString :: "jsval \<Rightarrow> string option"
  castEntry :: "jsval \<Rightarrow> entry option"

definition castEntries :: "orm \<Rightarrow> jsval \<Rightarrow> entry list option" where
  "castEntries M v = (case v of Arr xs \<Rightarrow> those (map (castEntry M) xs) | _ \<Rightarrow> None)"

text \<open>
  The validation loop of the handler. \<open>Inr False\<close> is the early
  \<^verbatim>\<open>return res.status(400)\<close>, \<open>Inr True\<close> the loop running to its end, \<open>Inl\<close> a
  thrown error.
\<close>

fun validate_entries :: "jsval list \<Rightarrow> js_error + bool" where
  "validate_entries [] = Inr True"
| "validate_entries (e # es) =
     (case get_prop e ''studentId'' of
        Inl err \<Rightarrow> Inl err
      | Inr sid \<Rightarrow>
          if \<not> truthy sid then Inr False
          else (case get_prop e ''present'' of
                  Inl err \<Rightarrow> Inl err
                | Inr p \<Rightarrow> if \<not> is_boolean p then Inr False else validate_entries es))"

text \<open>
  \<^verbatim>\<open>findOneAndUpdate(filter, update, { upsert: true, new: true })\<close> on the ledger: the
  first document with the key has its three fields set and keeps its \<^verbatim>\<open>_id\<close>; when
  there is none, a document with the fresh \<^verbatim>\<open>_id\<close> is inserted. The updated or
  inserted document is returned with the new ledger.
\<close>

fun upsert :: "objectId \<Rightarrow> string \<Rightarrow> string \<Rightarrow> entry list \<Rightarrow> attendance list
    \<Rightarrow> attendance \<times> attendance list" where
  "upsert newId d c es [] =
     (let r = \<lparr>att_id = newId, date = d, className = c, entries = es\<rparr> in (r, [r]))"
| "upsert newId d c es (r # rs) =
     (if date r = d \<and> className r = c
      then (let r' = r\<lparr>date := d, className := c, entries := es\<rparr> in (r', r' # rs))
      else (let (x, rs') = upsert newId d c es rs in (x, r # rs')))"

definition findOneAndUpdate :: "orm \<Rightarrow> objectId \<Rightarrow> jsval \<Rightarrow> jsval \<Rightarrow> jsval
    \<Rightarrow> attendance list \<Rightarrow> (attendance \<times> attendance list) option" where
  "findOneAndUpdate M newId d c es ledger =
     (case castString M d of
        None \<Rightarrow> None
      | Some d' \<Rightarrow>
          (case castString M c of
             None \<Rightarrow> None
           | Some c' \<Rightarrow>
               (case castEntries M es of
                  None \<Rightarrow> None
                | Some es' \<Rightarrow> Some (upsert newId d' c' es' ledger))))"

datatype mark_response =
    Saved objectId
  | Failed nat string

fun status :: "mark_response \<Rightarrow> nat" where
  "status (Saved a) = 200"
| "status (Failed code msg) = code"

text \<open>
  The handler of \<^verbatim>\<open>POST /attendance/mark\<close> after the access gate. Its arguments are
  the three destructured fields of the body, the \<^verbatim>\<open>_id\<close> the store would give a
  new document, and the ledger; it returns the response and the ledger afterwards.
  Every throw inside the \<^verbatim>\<open>try\<close> block ends in the \<^verbatim>\<open>catch\<close> with status 500.
\<close>

definition mark :: "orm \<Rightarrow> objectId \<Rightarrow> jsval \<Rightarrow> jsval \<Rightarrow> jsval \<Rightarrow> attendance list
    \<Rightarrow> mark_response \<times> attendance list" where
  "mark M newId d c es ledger =
     (if \<not> truthy d \<or> \<not> truthy c \<or> \<not> truthy es
      then (Failed 400 ''Date, className and entries are required'', ledger)
      else
        (case iterate es of
           Inl err \<Rightarrow> (Failed 500 ''Failed to mark attendance'', ledger)
         | Inr xs \<Rightarrow>
             (case validate_entries xs of
                Inl err \<Rightarrow> (Failed 500 ''Failed to mark attendance'', ledger)
              | Inr False \<Rightarrow> (Failed 400 ''Invalid entry format'', ledger)
              | Inr True \<Rightarrow>
                  (case findOneAndUpdate M newId d c es ledger of
                     None \<Rightarrow> (Failed 500 ''Failed to mark attendance'', ledger)
                   | Some (r, ledger') \<Rightarrow> (Saved (att_id r), ledger')))))"

text \<open>
  A caster for the closed instances below: it accepts the values that already have the
  schema's type (a string for a String path; an object with a string \<^verbatim>\<open>studentId\<close>
  and a boolean \<^verbatim>\<open>present\<close> for an entry, \<^verbatim>\<open>remarks\<close> defaulting to the empty
  string) and refuses the rest.
\<close>

definition plain_orm :: orm where
  "plain_orm =
     \<lparr>castString = (\<lambda>v. case v of Str s \<Rightarrow> Some s | _ \<Rightarrow> None),
      castEntry = (\<lambda>v.
        case (get_prop v ''studentId'', get_prop v ''present'', get_prop v ''remarks'') of
          (Inr (Str s), Inr (Bool b), Inr Undefined) \<Rightarrow>
            Some \<lparr>studentId = s, present = b, remarks = []\<rparr>
        | (Inr (Str s), Inr (Bool b), Inr (Str t)) \<Rightarrow>
            Some \<lparr>studentId = s, present = b, remarks = t\<rparr>
        | _ \<Rightarrow> None)\<rparr>"

section \<open>Numbers\<close>

text \<open>
  A JavaScript number is an IEEE 754 binary64 value. The finite ones are rationals, and
  an arithmetic operation returns the exact result rounded to the nearest of them, a tie
  going to the even significand. \<open>fl\<close> is that rounding: 53 significant bits, the
  exponent of the unit in the last place not below \<open>-1074\<close>. Overflow to Infinity is
  not modelled: the report computes quotients of a count by a larger one and their
  hundredfold, which stay within 0 and 100. The counters themselves are whole numbers
  counted up by one from 0; binary64 holds every whole number up to \<open>2 ^ 53\<close> exactly, a
  ledger would need more than \<open>9 * 10 ^ 15\<close> entries to leave that range, and the model
  keeps them as natural numbers.
\<close>

definition pow2 :: "int \<Rightarrow> rat" where
  "pow2 k = (if 0 \<le> k then 2 ^ nat k else 1 / 2 ^ nat (- k))"

text \<open>
  \<open>ilog2 x\<close> is the \<open>e\<close> with \<open>2 ^ e \<le> x < 2 ^ (e + 1)\<close>, for a positive \<open>x\<close>
  (\<open>ilog2_le\<close> and \<open>ilog2_less\<close> below).
\<close>

definition ilog2 :: "rat \<Rightarrow> int" where
  "ilog2 x =
     (let (a, b) = quotient_of x; k = bitlen a - bitlen b
      in if pow2 k \<le> x then k else k - 1)"

definition round_even :: "rat \<Rightarrow> int" where
  "round_even m =
     (let n = \<lfloor>m\<rfloor>; r = m - of_int n
      in if r < 1 / 2 then n else if 1 / 2 < r then n + 1 else if even n then n else n + 1)"

definition fl :: "rat \<Rightarrow> rat" where
  "fl x =
     (if x = 0 then 0
      else
        (let a = \<bar>x\<bar>; e = max (ilog2 a) (- 1022); u = pow2 (e - 52)
         in sgn x * of_int (round_even (a / u)) * u))"

definition js_div :: "rat \<Rightarrow> rat \<Rightarrow> rat" where
  "js_div a b = fl (a / b)"

definition js_mul :: "rat \<Rightarrow> rat \<Rightarrow> rat" where
  "js_mul a b = fl (a * b)"

text \<open>
  \<^verbatim>\<open>x.toFixed(1)\<close> is the decimal \<open>n / 10\<close> with \<open>n / 10 - x\<close> as close to zero as
  possible, the larger \<open>n\<close> when there are two; the sign is set aside first (for a
  magnitude below \<open>10 ^ 21\<close>, as all are here). The model returns the number the string
  denotes. \<^verbatim>\<open>parseFloat\<close> reads a decimal string as the
  nearest binary64 value.
\<close>

definition toFixed1 :: "rat \<Rightarrow> rat" where
  "toFixed1 x = sgn x * of_int \<lfloor>10 * \<bar>x\<bar> + 1 / 2\<rfloor> / 10"

definition parseFloat :: "rat \<Rightarrow> rat" where
  "parseFloat x = fl x"

section \<open>The attendance summary\<close>

text \<open>
  The store compares strings by their bytes, a proper prefix coming first:
  \<^verbatim>\<open>{ $gte: from, $lte: to }\<close> is \<open>str_le from d \<and> str_le d to\<close>.
\<close>

fun str_le :: "string \<Rightarrow> string \<Rightarrow> bool" where
  "str_le [] ys = True"
| "str_le (x # xs) [] = False"
| "str_le (x # xs) (y # ys) =
     (if (of_char x :: nat) < of_char y then True
      else if (of_char y :: nat) < of_char x then False
      else str_le xs ys)"

text \<open>\<^verbatim>\<open>Attendance.find({ className, date: { $gte: from, $lte: to } })\<close>\<close>

definition find_records :: "string \<Rightarrow> string \<Rightarrow> string \<Rightarrow> attendance list \<Rightarrow> attendance list" where
  "find_records c f t ledger =
     filter (\<lambda>r. className r = c \<and> str_le f (date r) \<and> str_le (date r) t) ledger"

text \<open>
  \<^verbatim>\<open>.populate("entries.studentId")\<close> puts the student document with that \<^verbatim>\<open>_id\<close>
  in the place of the reference, and \<^verbatim>\<open>null\<close> when the roster has none.
\<close>

definition populate :: "student list \<Rightarrow> entry \<Rightarrow> student option" where
  "populate students e = find (\<lambda>s. student_id s = studentId e) students"

record stat =
  name :: string
  present_n :: nat
  total_n :: nat

text \<open>
  \<^verbatim>\<open>studentStats\<close> is an object keyed by the 24 hexadecimal digits of a student's
  \<^verbatim>\<open>_id\<close>; \<^verbatim>\<open>Object.values\<close> and \<^verbatim>\<open>Object.keys\<close> list it in the order of
  insertion. It is an association list with one pair for a key. The fields
  \<open>present_n\<close> and \<open>total_n\<close> of a value are the source's \<^verbatim>\<open>present\<close> and
  \<^verbatim>\<open>total\<close>.
\<close>

type_synonym studentStats = "(string \<times> stat) list"

definition modify :: "string \<Rightarrow> (stat \<Rightarrow> stat) \<Rightarrow> studentStats \<Rightarrow> studentStats" where
  "modify k f stats = map (\<lambda>(k', s). if k' = k then (k', f s) else (k', s)) stats"

text \<open>
  The body of the inner \<^verbatim>\<open>forEach\<close>. \<^verbatim>\<open>e.studentId._id\<close> throws a TypeError when
  populate has left \<^verbatim>\<open>null\<close>.
\<close>

definition tally_entry :: "student list \<Rightarrow> studentStats \<Rightarrow> entry \<Rightarrow> js_error + studentStats" where
  "tally_entry students stats e =
     (case populate students e of
        None \<Rightarrow> Inl TypeError
      | Some s \<Rightarrow>
          (let k = student_id s;
               stats1 = (if map_of stats k = None
                         then stats @ [(k, \<lparr>name = student_name s, present_n = 0, total_n = 0\<rparr>)]
                         else stats);
               stats2 = (if present e
                         then modify k (\<lambda>x. x\<lparr>present_n := present_n x + 1\<rparr>) stats1
                         else stats1)
           in Inr (modify k (\<lambda>x. x\<lparr>total_n := total_n x + 1\<rparr>) stats2)))"

fun tally_entries :: "student list \<Rightarrow> studentStats \<Rightarrow> entry list \<Rightarrow> js_error + studentStats" where
  "tally_entries students stats [] = Inr stats"
| "tally_entries students stats (e # es) =
     (case tally_entry students stats e of
        Inl err \<Rightarrow> Inl err
      | Inr stats' \<Rightarrow> tally_entries students stats' es)"

fun tally_records :: "student list \<Rightarrow> studentStats \<Rightarrow> attendance list \<Rightarrow> js_error + studentStats" where
  "tally_records students stats [] = Inr stats"
| "tally_records students stats (r # rs) =
     (case tally_entries students stats (entries r) of
        Inl err \<Rightarrow> Inl err
      | Inr stats' \<Rightarrow> tally_records students stats' rs)"

text \<open>\<^verbatim>\<open>(p / t) * 100\<close> on two counters\<close>

definition pct :: "nat \<Rightarrow> nat \<Rightarrow> rat" where
  "pct p t = js_mul (js_div (of_nat p) (of_nat t)) 100"

definition percentage :: "stat \<Rightarrow> rat" where
  "percentage s = pct (present_n s) (total_n s)"

definition is_perfect :: "stat \<Rightarrow> bool" where
  "is_perfect s = (present_n s = total_n s \<and> 0 < total_n s)"

definition is_below75 :: "stat \<Rightarrow> bool" where
  "is_below75 s = (0 < total_n s \<and> percentage s < 75)"

definition is_chronic :: "stat \<Rightarrow> bool" where
  "is_chronic s = (0 < total_n s \<and> percentage s < 50)"

text \<open>
  \<^verbatim>\<open>total > 0 ? ((totalPresent / total) * 100).toFixed(1) : 0\<close>, then
  \<^verbatim>\<open>parseFloat\<close> of it. The source's \<^verbatim>\<open>total\<close> is \<open>totalAll\<close> here.
\<close>

definition average_of :: "nat \<Rightarrow> nat \<Rightarrow> rat" where
  "average_of totalPresent totalAll =
     parseFloat
       (if 0 < totalAll then toFixed1 (pct totalPresent totalAll) else 0)"

record summary =
  average :: rat
  perfectCount :: nat
  below75Count :: nat
  chronicAbsenceCount :: nat
  days :: nat
  totalStudentsTracked :: nat

definition summarise :: "nat \<Rightarrow> studentStats \<Rightarrow> summary" where
  "summarise n stats =
     (let vals = map snd stats;
          totalPresent = foldl (\<lambda>a s. a + present_n s) 0 vals;
          totalAll = foldl (\<lambda>a s. a + total_n s) 0 vals
      in \<lparr>average = average_of totalPresent totalAll,
          perfectCount = length (filter is_perfect vals),
          below75Count = length (filter is_below75 vals),
          chronicAbsenceCount = length (filter is_chronic vals),
          days = n,
          totalStudentsTracked = length (map fst stats)\<rparr>)"

datatype report_response =
    Report summary
  | ReportFailed nat string

text \<open>
  The handler of \<^verbatim>\<open>GET /reports/summary\<close> after the access gate, on the roster and
  the ledger. A query parameter is a string, or absent (a repeated or bracketed
  parameter, which Express would parse to an array or an object, is not modelled).
\<close>

definition report :: "student list \<Rightarrow> attendance list \<Rightarrow> string option \<Rightarrow> string option
    \<Rightarrow> string option \<Rightarrow> report_response" where
  "report students ledger cn fr to =
     (case (cn, fr, to) of
        (Some c, Some f, Some t) \<Rightarrow>
          if c = [] \<or> f = [] \<or> t = []
          then ReportFailed 400 ''className, from and to dates are required''
          else
            (let records = find_records c f t ledger
             in case tally_records students [] records of
                  Inl err \<Rightarrow> ReportFailed 500 ''Failed to generate report''
                | Inr stats \<Rightarrow> Report (summarise (length records) stats))
      | _ \<Rightarrow> ReportFailed 400 ''className, from and to dates are required'')"

section \<open>Notions used to state the properties\<close>

text \<open>The documents of the ledger that carry a given date and class name.\<close>

definition has_key :: "string \<Rightarrow> string \<Rightarrow> attendance \<Rightarrow> bool" where
  "has_key d c = (\<lambda>r. date r = d \<and> className r = c)"

text \<open>
  An element of the submitted array that lacks a usable \<^verbatim>\<open>studentId\<close> or whose
  \<^verbatim>\<open>present\<close> is not a boolean; \<^verbatim>\<open>null\<close>, which has neither property, is one.
\<close>

definition malformed :: "jsval \<Rightarrow> bool" where
  "malformed e =
     ((case get_prop e ''studentId'' of Inl err \<Rightarrow> True | Inr v \<Rightarrow> \<not> truthy v) \<or>
      (case get_prop e ''present'' of Inl err \<Rightarrow> True | Inr p \<Rightarrow> \<not> is_boolean p))"

text \<open>
  The entries of a list of documents, in the order the two nested loops visit them, and
  the number of those that name a student, all of them and the present ones.
\<close>

definition all_entries :: "attendance list \<Rightarrow> entry list" where
  "all_entries recs = concat (map entries recs)"

definition entry_count :: "objectId \<Rightarrow> entry list \<Rightarrow> nat" where
  "entry_count sid es = length (filter (\<lambda>e. studentId e = sid) es)"

definition present_count :: "objectId \<Rightarrow> entry list \<Rightarrow> nat" where
  "present_count sid es = length (filter (\<lambda>e. studentId e = sid \<and> present e) es)"

text \<open>
  \<open>tallied stats es\<close>: the statistics are those of the entries \<open>es\<close>, one pair for
  each student named in \<open>es\<close>, holding the two counts of that student's entries.
\<close>

definition tallied :: "studentStats \<Rightarrow> entry list \<Rightarrow> bool" where
  "tallied stats es =
     (distinct (map fst stats) \<and> set (map fst stats) = studentId ` set es \<and>
      (\<forall>k s. map_of stats k = Some s \<longrightarrow>
         total_n s = entry_count k es \<and> present_n s = present_count k es))"

text \<open>
  Sample data for the closed instances below; the short ids \<open>s1\<close>, \<open>a1\<close> stand for
  24-digit ones.
\<close>

definition body_entry :: "string \<Rightarrow> bool \<Rightarrow> jsval" where
  "body_entry sid p = Obj [(''studentId'', Str sid), (''present'', Bool p)]"

definition stored :: "string \<Rightarrow> bool \<Rightarrow> entry" where
  "stored sid p = \<lparr>studentId = sid, present = p, remarks = []\<rparr>"

definition first_batch :: jsval where
  "first_batch = Arr [body_entry ''s1'' True, body_entry ''s2'' False]"

definition second_batch :: jsval where
  "second_batch = Arr [body_entry ''s3'' True]"

definition after_first :: "attendance list" where
  "after_first =
     [\<lparr>att_id = ''a1'', date = ''2024-01-01'', className = ''5A'',
       entries = [stored ''s1'' True, stored ''s2'' False]\<rparr>]"

definition after_second :: "attendance list" where
  "after_second =
     [\<lparr>att_id = ''a1'', date = ''2024-01-01'', className = ''5A'',
       entries = [stored ''s3'' True]\<rparr>]"

definition student_A :: student where
  "student_A =
     \<lparr>student_id = ''s1'', roll = 1, student_name = ''Aarav Kumar'',
      student_className = ''5A'', parentPhone = ''+91 98765xxxx''\<rparr>"

definition student_B :: student where
  "student_B =
     \<lparr>student_id = ''s2'', roll = 2, student_name = ''Diya Patel'',
      student_className = ''5A'', parentPhone = ''+91 98765xxxx''\<rparr>"

definition three_days :: "attendance list" where
  "three_days =
     [\<lparr>att_id = ''a1'', date = ''2024-01-01'', className = ''5A'',
       entries = [stored ''s1'' True, stored ''s2'' False]\<rparr>,
      \<lparr>att_id = ''a2'', date = ''2024-01-02'', className = ''5A'',
       entries = [stored ''s1'' True, stored ''s2'' True]\<rparr>,
      \<lparr>att_id = ''a3'', date = ''2024-01-03'', className = ''5A'',
       entries = [stored ''s1'' False]\<rparr>]"

definition three_days_stats :: studentStats where
  "three_days_stats =
     [(''s1'', \<lparr>name = ''Aarav Kumar'', present_n = 2, total_n = 3\<rparr>),
      (''s2'', \<lparr>name = ''Diya Patel'', present_n = 1, total_n = 2\<rparr>)]"

definition three_days_summary :: summary where
  "three_days_summary =
     \<lparr>average = 60, perfectCount = 0, below75Count = 2, chronicAbsenceCount = 0,
      days = 3, totalStudentsTracked = 2\<rparr>"

definition doubled_day :: "attendance list" where
  "doubled_day =
     [\<lparr>att_id = ''a1'', date = ''2024-01-01'', className = ''5A'',
       entries = [stored ''s1'' True, stored ''s1'' False]\<rparr>]"

definition uniform_day :: "nat \<Rightarrow> nat \<Rightarrow> attendance list" where
  "uniform_day p a =
     [\<lparr>att_id = ''a1'', date = ''2024-01-01'', className = ''5A'',
       entries = replicate p (stored ''s1'' True) @ replicate a (stored ''s1'' False)\<rparr>]"

text \<open>The average a response carries, when it is a report.\<close>

definition average_reported :: "report_response \<Rightarrow> rat option" where
  "average_reported r = (case r of Report s \<Rightarrow> Some (average s) | ReportFailed code msg \<Rightarrow> None)"

section \<open>Properties of marking\<close>

lemma upsert_fst:
  "fst (upsert i d c es l) = x \<Longrightarrow> date x = d \<and> className x = c \<and> entries x = es"
  by (induction l) (auto simp: Let_def split: prod.splits if_splits)

lemma upsert_keys:
  "map (\<lambda>r. (date r, className r)) (snd (upsert i d c es l)) =
     (if (d, c) \<in> set (map (\<lambda>r. (date r, className r)) l)
      then map (\<lambda>r. (date r, className r)) l
      else map (\<lambda>r. (date r, className r)) l @ [(d, c)])"
  by (induction l) (auto simp: Let_def split: prod.splits)

lemma upsert_unique: "unique_keys l \<Longrightarrow> unique_keys (snd (upsert i d c es l))"
  unfolding unique_keys_def by (simp add: upsert_keys)

lemma upsert_member: "fst (upsert i d c es l) \<in> set (snd (upsert i d c es l))"
  by (induction l) (auto simp: Let_def split: prod.splits)

lemma upsert_filter:
  "unique_keys l \<Longrightarrow> filter (has_key d c) (snd (upsert i d c es l)) = [fst (upsert i d c es l)]"
proof (induction l)
  case Nil
  then show ?case by (simp add: has_key_def Let_def)
next
  case (Cons r rs)
  have u: "unique_keys rs" using Cons.prems by (simp add: unique_keys_def)
  show ?case
  proof (cases "has_key d c r")
    case True
    then have "\<forall>x \<in> set rs. \<not> has_key d c x"
      using Cons.prems by (auto simp: unique_keys_def has_key_def image_iff)
    then have "filter (has_key d c) rs = []" by (simp add: filter_empty_conv)
    with True show ?thesis by (simp add: has_key_def Let_def)
  next
    case False
    with Cons.IH [OF u] show ?thesis
      by (auto simp: has_key_def Let_def split: prod.splits)
  qed
qed

lemma upsert_others:
  "filter (\<lambda>r. \<not> has_key d c r) (snd (upsert i d c es l)) = filter (\<lambda>r. \<not> has_key d c r) l"
  by (induction l) (auto simp: has_key_def Let_def split: prod.splits)

lemma upsert_again:
  "upsert j d c es' (snd (upsert i d c es l)) =
     ((fst (upsert i d c es l))\<lparr>entries := es'\<rparr>, snd (upsert i d c es' l))"
  by (induction l) (auto simp: Let_def split: prod.splits)

lemma mark_Saved:
  "mark M i d c es l = (Saved a, l') \<Longrightarrow>
     \<exists>d' c' xs es'. truthy d \<and> truthy c \<and> es = Arr xs \<and> validate_entries xs = Inr True \<and>
        castString M d = Some d' \<and> castString M c = Some c' \<and>
        those (map (castEntry M) xs) = Some es' \<and>
        a = att_id (fst (upsert i d' c' es' l)) \<and> l' = snd (upsert i d' c' es' l)"
  unfolding mark_def findOneAndUpdate_def castEntries_def
  by (auto split: if_splits sum.splits bool.splits option.splits jsval.splits prod.splits)

lemma mark_Failed: "mark M i d c es l = (Failed n msg, l') \<Longrightarrow> l' = l"
  unfolding mark_def
  by (auto split: if_splits sum.splits bool.splits option.splits prod.splits)

lemma those_map_Some: "those (map f xs) = Some ys \<Longrightarrow> map Some ys = map f xs"
  by (induction xs arbitrary: ys) (auto split: option.splits)

lemma validate_True: "validate_entries xs = Inr True \<Longrightarrow> e \<in> set xs \<Longrightarrow> \<not> malformed e"
  by (induction xs) (auto simp: malformed_def split: sum.splits if_splits)

lemma validate_throws:
  "validate_entries xs = Inl err \<Longrightarrow> Null \<in> set xs \<or> Undefined \<in> set xs"
proof (induction xs)
  case Nil
  then show ?case by simp
next
  case (Cons x xs)
  then show ?case by (cases x) (auto split: sum.splits if_splits)
qed

lemma validate_append_Null:
  "validate_entries pre = Inr True \<Longrightarrow> validate_entries (pre @ Null # post) = Inl TypeError"
  by (induction pre) (auto split: sum.splits if_splits)

text \<open>
  The unique index is an invariant of marking: whatever the call, it leaves a ledger with
  at most one document for a key when it found one.
\<close>

theorem mark_keeps_unique:
  assumes "unique_keys ledger"
  shows "unique_keys (snd (mark M i d c es ledger))"
proof (cases "mark M i d c es ledger")
  case (Pair r l')
  show ?thesis
  proof (cases r)
    case (Saved a)
    with Pair mark_Saved [of M i d c es ledger a l'] assms show ?thesis
      by (auto simp: upsert_unique)
  next
    case (Failed n msg)
    with Pair mark_Failed [of M i d c es ledger n msg l'] assms show ?thesis by simp
  qed
qed

theorem mark_keeps_unique_witness:
  "unique_keys after_first \<and>
   unique_keys (snd (mark plain_orm ''a2'' (Str ''2024-01-02'') (Str ''5A'') second_batch
     after_first))"
proof -
  have h: "unique_keys after_first" by (simp add: unique_keys_def after_first_def)
  from mark_keeps_unique [OF h] h show ?thesis by blast
qed

text \<open>
  C2. On a ledger that respects the unique index, two successful calls of mark for the
  same date and class name leave exactly one document with that key. Its entries are the
  casts of the second call's array, element by element and in order, so nothing of the
  first call's entries remains; it keeps the \<^verbatim>\<open>_id\<close> the first call returned; the
  documents of every other key are untouched; and when the two arrays are the same, the
  second call leaves the ledger as the first one left it.
\<close>

theorem mark_twice_replaces:
  assumes u: "unique_keys ledger"
    and m1: "mark M i1 d c es1 ledger = (Saved a1, ledger1)"
    and m2: "mark M i2 d c es2 ledger1 = (Saved a2, ledger2)"
  shows "\<exists>d' c' xs2 r.
           castString M d = Some d' \<and> castString M c = Some c' \<and> es2 = Arr xs2 \<and>
           filter (has_key d' c') ledger2 = [r] \<and>
           map Some (entries r) = map (castEntry M) xs2 \<and>
           att_id r = a2 \<and> a2 = a1 \<and>
           filter (\<lambda>x. \<not> has_key d' c' x) ledger2 = filter (\<lambda>x. \<not> has_key d' c' x) ledger \<and>
           (es1 = es2 \<longrightarrow> ledger2 = ledger1)"
proof -
  from mark_Saved [OF m1] obtain d' c' xs1 e1 where
    s1: "castString M d = Some d'" "castString M c = Some c'" "es1 = Arr xs1"
        "those (map (castEntry M) xs1) = Some e1"
        "a1 = att_id (fst (upsert i1 d' c' e1 ledger))" "ledger1 = snd (upsert i1 d' c' e1 ledger)"
    by blast
  from mark_Saved [OF m2] s1(1,2) obtain xs2 e2 where
    s2: "es2 = Arr xs2" "those (map (castEntry M) xs2) = Some e2"
        "a2 = att_id (fst (upsert i2 d' c' e2 ledger1))" "ledger2 = snd (upsert i2 d' c' e2 ledger1)"
    by auto
  let ?r = "fst (upsert i2 d' c' e2 ledger1)"
  have u1: "unique_keys ledger1" using u s1(6) by (simp add: upsert_unique)
  have f: "filter (has_key d' c') ledger2 = [?r]"
    using u1 s2(4) by (simp add: upsert_filter)
  have e: "map Some (entries ?r) = map (castEntry M) xs2"
    using upsert_fst [of i2 d' c' e2 ledger1 ?r] those_map_Some [OF s2(2)] by simp
  have a: "a2 = a1" using s1(5,6) s2(3) by (simp add: upsert_again)
  have o: "filter (\<lambda>x. \<not> has_key d' c' x) ledger2 = filter (\<lambda>x. \<not> has_key d' c' x) ledger"
    using s1(6) s2(4) by (simp add: upsert_others)
  have i: "es1 = es2 \<Longrightarrow> ledger2 = ledger1"
  proof -
    assume "es1 = es2"
    then have "e1 = e2" using s1(3,4) s2(1,2) by simp
    then show ?thesis using s1(6) s2(4) by (simp add: upsert_again)
  qed
  show ?thesis using s1(1,2) s2(1,3) f e a o i by auto
qed

theorem mark_twice_replaces_witness:
  "unique_keys [] \<and>
   mark plain_orm ''a1'' (Str ''2024-01-01'') (Str ''5A'') first_batch [] =
     (Saved ''a1'', after_first) \<and>
   mark plain_orm ''a2'' (Str ''2024-01-01'') (Str ''5A'') second_batch after_first =
     (Saved ''a1'', after_second) \<and>
   (\<exists>d' c' xs2 r.
      castString plain_orm (Str ''2024-01-01'') = Some d' \<and>
      castString plain_orm (Str ''5A'') = Some c' \<and> second_batch = Arr xs2 \<and>
      filter (has_key d' c') after_second = [r] \<and>
      map Some (entries r) = map (castEntry plain_orm) xs2 \<and>
      att_id r = ''a1'' \<and> ''a1'' = ''a1'' \<and>
      filter (\<lambda>x. \<not> has_key d' c' x) after_second = filter (\<lambda>x. \<not> has_key d' c' x) [] \<and>
      (first_batch = second_batch \<longrightarrow> after_second = after_first))"
proof -
  have h1: "unique_keys []" by (simp add: unique_keys_def)
  have h2: "mark plain_orm ''a1'' (Str ''2024-01-01'') (Str ''5A'') first_batch [] =
     (Saved ''a1'', after_first)"
    by code_simp
  have h3: "mark plain_orm ''a2'' (Str ''2024-01-01'') (Str ''5A'') second_batch after_first =
     (Saved ''a1'', after_second)"
    by code_simp
  note t = mark_twice_replaces [OF h1 h2 h3]
  show ?thesis by (intro conjI h1 h2 h3 t)
qed

text \<open>
  C3. A call of mark with a malformed element in its array is to be refused with status
  400 and no write. The handler reads \<^verbatim>\<open>entry.studentId\<close> before it knows that the
  element is an object: when the loop reaches a \<^verbatim>\<open>null\<close> element, the elements before
  it being well formed, the read throws, the \<^verbatim>\<open>catch\<close> answers with status 500
  and the ledger is left as it was.
\<close>

theorem mark_null_entry:
  assumes "truthy d" and "truthy c" and "validate_entries pre = Inr True"
  shows "mark M i d c (Arr (pre @ Null # post)) ledger =
           (Failed 500 ''Failed to mark attendance'', ledger)"
  using assms by (simp add: mark_def validate_append_Null)

theorem mark_null_entry_witness:
  "truthy (Str ''2024-01-01'') \<and> truthy (Str ''5A'') \<and> validate_entries [] = Inr True \<and>
   mark plain_orm ''a2'' (Str ''2024-01-01'') (Str ''5A'') (Arr [Null]) after_first =
     (Failed 500 ''Failed to mark attendance'', after_first) \<and>
   status (Failed 500 ''Failed to mark attendance'') \<noteq> 400"
proof -
  have h1: "truthy (Str ''2024-01-01'')" and h2: "truthy (Str ''5A'')"
    and h3: "validate_entries [] = Inr True"
    by simp_all
  from mark_null_entry [OF h1 h2 h3, of plain_orm "''a2''" "[]" after_first] h1 h2 h3
  show ?thesis by simp
qed

text \<open>
  What holds of every call with a malformed element in its array: the call fails, the
  ledger is unchanged, the status is 400 or 500, and it is 400 when no element of the
  array is \<^verbatim>\<open>null\<close> (or \<^verbatim>\<open>undefined\<close>, which JSON cannot carry).
\<close>

theorem mark_malformed_no_write:
  assumes "\<exists>e \<in> set xs. malformed e"
  shows "\<exists>code msg. mark M i d c (Arr xs) ledger = (Failed code msg, ledger) \<and>
           (code = 400 \<or> code = 500) \<and>
           (Null \<notin> set xs \<and> Undefined \<notin> set xs \<longrightarrow> code = 400)"
proof (cases "validate_entries xs")
  case (Inl err)
  then show ?thesis using validate_throws [OF Inl] by (auto simp: mark_def)
next
  case (Inr b)
  then have "b = False" using assms validate_True [of xs] by (cases b) auto
  with Inr show ?thesis by (auto simp: mark_def)
qed

theorem mark_malformed_no_write_witness:
  "(\<exists>e \<in> set [body_entry ''s1'' True, Obj [(''studentId'', Str ''s2'')]]. malformed e) \<and>
   (\<exists>code msg.
      mark plain_orm ''a2'' (Str ''2024-01-01'') (Str ''5A'')
        (Arr [body_entry ''s1'' True, Obj [(''studentId'', Str ''s2'')]]) after_first =
        (Failed code msg, after_first) \<and>
      (code = 400 \<or> code = 500) \<and>
      (Null \<notin> set [body_entry ''s1'' True, Obj [(''studentId'', Str ''s2'')]] \<and>
       Undefined \<notin> set [body_entry ''s1'' True, Obj [(''studentId'', Str ''s2'')]] \<longrightarrow>
       code = 400)) \<and>
   mark plain_orm ''a2'' (Str ''2024-01-01'') (Str ''5A'')
     (Arr [body_entry ''s1'' True, Obj [(''studentId'', Str ''s2'')]]) after_first =
     (Failed 400 ''Invalid entry format'', after_first)"
proof -
  have h: "\<exists>e \<in> set [body_entry ''s1'' True, Obj [(''studentId'', Str ''s2'')]]. malformed e"
    by (simp add: malformed_def)
  note t = mark_malformed_no_write
    [OF h, of plain_orm "''a2''" "Str ''2024-01-01''" "Str ''5A''" after_first]
  have e: "mark plain_orm ''a2'' (Str ''2024-01-01'') (Str ''5A'')
     (Arr [body_entry ''s1'' True, Obj [(''studentId'', Str ''s2'')]]) after_first =
     (Failed 400 ''Invalid entry format'', after_first)"
    by code_simp
  show ?thesis by (intro conjI h t e)
qed

text \<open>
  C4, as the code has it. The guard of the handler is \<^verbatim>\<open>!entries\<close>, and an empty
  array is truthy: a call with an empty array, a truthy date and class name that cast to
  the strings \<open>d'\<close> and \<open>c'\<close>, succeeds and leaves a document with that key and no
  entries (the only one with the key when the ledger respects the unique index). The
  call is refused with status 400 and no write when the entries value is falsy.
\<close>

theorem mark_empty_entries:
  assumes "truthy d" and "truthy c"
    and "castString M d = Some d'" and "castString M c = Some c'"
  shows "(\<exists>a ledger' r. mark M i d c (Arr []) ledger = (Saved a, ledger') \<and>
            r \<in> set ledger' \<and> att_id r = a \<and>
            date r = d' \<and> className r = c' \<and> entries r = [] \<and>
            (unique_keys ledger \<longrightarrow> filter (has_key d' c') ledger' = [r])) \<and>
         (\<forall>es. \<not> truthy es \<longrightarrow>
            mark M i d c es ledger =
              (Failed 400 ''Date, className and entries are required'', ledger))"
proof -
  let ?u = "upsert i d' c' [] ledger"
  have m: "mark M i d c (Arr []) ledger = (Saved (att_id (fst ?u)), snd ?u)"
    using assms by (simp add: mark_def findOneAndUpdate_def castEntries_def split: prod.splits)
  have k: "date (fst ?u) = d' \<and> className (fst ?u) = c' \<and> entries (fst ?u) = []"
    using upsert_fst [of i d' c' "[]" ledger] by simp
  have f: "unique_keys ledger \<Longrightarrow> filter (has_key d' c') (snd ?u) = [fst ?u]"
    by (rule upsert_filter)
  have s: "fst ?u \<in> set (snd ?u)"
    by (rule upsert_member)
  have n: "\<forall>es. \<not> truthy es \<longrightarrow>
            mark M i d c es ledger =
              (Failed 400 ''Date, className and entries are required'', ledger)"
    by (simp add: mark_def)
  show ?thesis using m k f s n by auto
qed

theorem mark_empty_entries_witness:
  "truthy (Str ''2024-01-02'') \<and> truthy (Str ''5A'') \<and>
   castString plain_orm (Str ''2024-01-02'') = Some ''2024-01-02'' \<and>
   castString plain_orm (Str ''5A'') = Some ''5A'' \<and>
   (\<exists>a ledger' r.
      mark plain_orm ''a2'' (Str ''2024-01-02'') (Str ''5A'') (Arr []) after_first =
        (Saved a, ledger') \<and>
      r \<in> set ledger' \<and> att_id r = a \<and>
      date r = ''2024-01-02'' \<and> className r = ''5A'' \<and> entries r = [])"
proof -
  have h1: "truthy (Str ''2024-01-02'')" and h2: "truthy (Str ''5A'')"
    and h3: "castString plain_orm (Str ''2024-01-02'') = Some ''2024-01-02''"
    and h4: "castString plain_orm (Str ''5A'') = Some ''5A''"
    by (simp_all add: plain_orm_def)
  from mark_empty_entries [OF h1 h2 h3 h4, of "''a2''" after_first] h1 h2 h3 h4
  show ?thesis by blast
qed

theorem mark_empty_entries_counterexample:
  "mark plain_orm ''a1'' (Str ''2024-01-01'') (Str ''5A'') (Arr []) [] =
     (Saved ''a1'', [\<lparr>att_id = ''a1'', date = ''2024-01-01'', className = ''5A'', entries = []\<rparr>]) \<and>
   status (Saved ''a1'') = 200"
  by code_simp

section \<open>Properties of the summary\<close>

lemma str_le_lexord:
  "str_le a b \<longleftrightarrow> a = b \<or> (a, b) \<in> lexord {(x, y). (of_char x :: nat) < of_char y}"
proof (induction a b rule: str_le.induct)
  case (1 ys)
  then show ?case by (cases ys) auto
next
  case (2 x xs)
  then show ?case by simp
next
  case (3 x xs y ys)
  have "(of_char x :: nat) = of_char y \<longleftrightarrow> x = y" by simp
  with 3 show ?case by (auto simp: not_less)
qed

lemma str_le_refl: "str_le a a"
  by (simp add: str_le_lexord)

lemma str_le_trans: "str_le a b \<Longrightarrow> str_le b c \<Longrightarrow> str_le a c"
proof (induction a b arbitrary: c rule: str_le.induct)
  case (1 ys)
  then show ?case by simp
next
  case (2 x xs)
  then show ?case by simp
next
  case (3 x xs y ys)
  then show ?case by (cases c) (auto split: if_splits)
qed

lemma distinct_dates:
  "distinct (map (\<lambda>r. (date r, className r)) l) \<Longrightarrow>
     distinct (map date (filter (\<lambda>r. className r = c \<and> Q r) l))"
proof (induction l)
  case Nil
  then show ?case by simp
next
  case (Cons r rs)
  then show ?case by (auto simp: image_iff)
qed

lemma days_card:
  assumes "unique_keys ledger"
  shows "length (find_records c f t ledger) =
     card {dt. str_le f dt \<and> str_le dt t \<and> (\<exists>r \<in> set ledger. className r = c \<and> date r = dt)}"
proof -
  let ?P = "\<lambda>r. className r = c \<and> (str_le f (date r) \<and> str_le (date r) t)"
  have d: "distinct (map date (filter ?P ledger))"
    using assms unfolding unique_keys_def by (rule distinct_dates)
  have "length (find_records c f t ledger) = length (map date (filter ?P ledger))"
    by (simp add: find_records_def)
  also have "\<dots> = card (set (map date (filter ?P ledger)))"
    using distinct_card [OF d] by simp
  also have "set (map date (filter ?P ledger)) =
      {dt. str_le f dt \<and> str_le dt t \<and> (\<exists>r \<in> set ledger. className r = c \<and> date r = dt)}"
    by auto
  finally show ?thesis .
qed

lemma modify_keys: "map fst (modify k f stats) = map fst stats"
  by (induction stats) (auto simp: modify_def)

lemma map_of_modify:
  "map_of (modify k f stats) k' = (if k' = k then map_option f (map_of stats k) else map_of stats k')"
  by (induction stats) (auto simp: modify_def)

lemma populate_Some: "populate students e = Some s \<Longrightarrow> student_id s = studentId e"
  by (auto simp: populate_def find_Some_iff)

lemma populate_None:
  "populate students e = None \<longleftrightarrow> (\<forall>s \<in> set students. student_id s \<noteq> studentId e)"
  by (auto simp: populate_def find_None_iff)

lemma count_snoc:
  "entry_count k (es @ [e]) = entry_count k es + (if studentId e = k then 1 else 0)"
  "present_count k (es @ [e]) = present_count k es + (if studentId e = k \<and> present e then 1 else 0)"
  by (simp_all add: entry_count_def present_count_def)

lemma count_zero: "entry_count k es = 0 \<longleftrightarrow> k \<notin> studentId ` set es"
  by (auto simp: entry_count_def filter_empty_conv)

lemma present_le: "present_count k es \<le> entry_count k es"
  unfolding entry_count_def present_count_def
  by (induction es) auto

lemma tally_entry_step:
  assumes t: "tallied stats es" and r: "tally_entry students stats e = Inr stats'"
  shows "tallied stats' (es @ [e])"
proof -
  from r obtain s where p: "populate students e = Some s"
    by (auto simp: tally_entry_def split: option.splits)
  let ?k = "studentId e"
  have k: "student_id s = ?k" using p by (rule populate_Some)
  let ?s1 = "if map_of stats ?k = None
             then stats @ [(?k, \<lparr>name = student_name s, present_n = 0, total_n = 0\<rparr>)] else stats"
  let ?s2 = "if present e then modify ?k (\<lambda>x. x\<lparr>present_n := present_n x + 1\<rparr>) ?s1 else ?s1"
  have s': "stats' = modify ?k (\<lambda>x. x\<lparr>total_n := total_n x + 1\<rparr>) ?s2"
    using r p k by (simp add: tally_entry_def Let_def)
  have keys: "map fst stats' = map fst ?s1"
    by (simp add: s' modify_keys)
  have d: "distinct (map fst stats')"
    using t by (auto simp: keys tallied_def map_of_eq_None_iff)
  have st: "set (map fst stats') = studentId ` set (es @ [e])"
    using t by (auto simp: keys tallied_def map_of_eq_None_iff)
  have old: "map_of stats ?k = None \<Longrightarrow> entry_count ?k es = 0 \<and> present_count ?k es = 0"
  proof -
    assume "map_of stats ?k = None"
    then have "?k \<notin> studentId ` set es" using t by (simp add: tallied_def map_of_eq_None_iff)
    then have "entry_count ?k es = 0" by (simp add: count_zero)
    then show ?thesis using present_le [of ?k es] by simp
  qed
  have m1: "map_of ?s1 k' = (if k' = ?k \<and> map_of stats ?k = None
       then Some \<lparr>name = student_name s, present_n = 0, total_n = 0\<rparr> else map_of stats k')" for k'
    by (auto simp: map_add_def split: option.splits)
  have v: "total_n x = entry_count k' (es @ [e]) \<and> present_n x = present_count k' (es @ [e])"
    if "map_of stats' k' = Some x" for k' x
  proof (cases "k' = ?k")
    case True
    show ?thesis
    proof (cases "map_of stats ?k")
      case None
      with that True old show ?thesis
        by (auto simp: s' map_of_modify m1 count_snoc split: if_splits)
    next
      case (Some y)
      then have "total_n y = entry_count ?k es \<and> present_n y = present_count ?k es"
        using t by (simp add: tallied_def)
      with that True Some show ?thesis
        by (auto simp: s' map_of_modify count_snoc split: if_splits)
    qed
  next
    case False
    with that have "map_of stats k' = Some x"
      by (auto simp: s' map_of_modify m1 split: if_splits)
    then have "total_n x = entry_count k' es \<and> present_n x = present_count k' es"
      using t by (simp add: tallied_def)
    with False show ?thesis by (auto simp: count_snoc)
  qed
  show ?thesis unfolding tallied_def using d st v by blast
qed

lemma tally_entries_tallied:
  "tallied stats es0 \<Longrightarrow> tally_entries students stats es = Inr stats' \<Longrightarrow> tallied stats' (es0 @ es)"
proof (induction es arbitrary: stats es0)
  case Nil
  then show ?case by simp
next
  case (Cons e es)
  from Cons.prems(2) obtain s1 where
    a: "tally_entry students stats e = Inr s1" and b: "tally_entries students s1 es = Inr stats'"
    by (auto split: sum.splits)
  from Cons.IH [OF tally_entry_step [OF Cons.prems(1) a] b] show ?case by simp
qed

lemma tally_records_tallied:
  "tallied stats es0 \<Longrightarrow> tally_records students stats rs = Inr stats' \<Longrightarrow>
     tallied stats' (es0 @ all_entries rs)"
proof (induction rs arbitrary: stats es0)
  case Nil
  then show ?case by (simp add: all_entries_def)
next
  case (Cons r rs)
  from Cons.prems(2) obtain s1 where
    a: "tally_entries students stats (entries r) = Inr s1"
    and b: "tally_records students s1 rs = Inr stats'"
    by (auto split: sum.splits)
  from Cons.IH [OF tally_entries_tallied [OF Cons.prems(1) a] b] show ?case
    by (simp add: all_entries_def)
qed

lemma tallied_empty: "tallied [] []"
  by (simp add: tallied_def)

lemma tally_records_ok:
  "tally_records students [] rs = Inr stats \<Longrightarrow> tallied stats (all_entries rs)"
  using tally_records_tallied [OF tallied_empty] by fastforce


lemma tally_entries_succeeds:
  "(\<exists>stats'. tally_entries students stats es = Inr stats') \<longleftrightarrow>
     (\<forall>e \<in> set es. populate students e \<noteq> None)"
proof (induction es arbitrary: stats)
  case Nil
  then show ?case by simp
next
  case (Cons e es)
  show ?case
  proof (cases "populate students e")
    case None
    then show ?thesis by (simp add: tally_entry_def)
  next
    case (Some s)
    then obtain s1 where "tally_entry students stats e = Inr s1"
      by (simp add: tally_entry_def Let_def)
    with Some Cons.IH [of s1] show ?thesis by simp
  qed
qed

lemma tally_records_succeeds:
  "(\<exists>stats'. tally_records students stats rs = Inr stats') \<longleftrightarrow>
     (\<forall>e \<in> set (all_entries rs). populate students e \<noteq> None)"
proof (induction rs arbitrary: stats)
  case Nil
  then show ?case by (simp add: all_entries_def)
next
  case (Cons r rs)
  show ?case
  proof (cases "tally_entries students stats (entries r)")
    case (Inl err)
    then have "\<not> (\<forall>e \<in> set (entries r). populate students e \<noteq> None)"
      using tally_entries_succeeds [of students stats "entries r"] by simp
    with Inl show ?thesis by (auto simp: all_entries_def)
  next
    case (Inr s1)
    then have "\<forall>e \<in> set (entries r). populate students e \<noteq> None"
      using tally_entries_succeeds [of students stats "entries r"] by blast
    with Inr Cons.IH [of s1] show ?thesis by (auto simp: all_entries_def)
  qed
qed

lemma report_valid:
  assumes "c \<noteq> []" and "f \<noteq> []" and "t \<noteq> []"
  shows "report students ledger (Some c) (Some f) (Some t) =
     (case tally_records students [] (find_records c f t ledger) of
        Inl err \<Rightarrow> ReportFailed 500 ''Failed to generate report''
      | Inr stats \<Rightarrow> Report (summarise (length (find_records c f t ledger)) stats))"
  using assms by (simp add: report_def Let_def)

lemma report_Report:
  assumes "report students ledger cn fr to = Report s"
  shows "\<exists>c f t stats. cn = Some c \<and> fr = Some f \<and> to = Some t \<and> c \<noteq> [] \<and> f \<noteq> [] \<and> t \<noteq> [] \<and>
           tally_records students [] (find_records c f t ledger) = Inr stats \<and>
           s = summarise (length (find_records c f t ledger)) stats"
  using assms
  by (auto simp: report_def Let_def split: option.splits if_splits sum.splits)

lemma map_of_Some_key: "map_of xs k = Some s \<Longrightarrow> k \<in> fst ` set xs"
  using map_of_eq_None_iff [of xs k] by auto

lemma count_by_key:
  "distinct (map fst xs) \<Longrightarrow>
     length (filter Q (map snd xs)) = card {k. \<exists>s. map_of xs k = Some s \<and> Q s}"
proof (induction xs)
  case Nil
  then show ?case by simp
next
  case (Cons x xs)
  obtain a b where x: "x = (a, b)" by (cases x)
  let ?S = "{k. \<exists>s. map_of xs k = Some s \<and> Q s}"
  have fin: "finite ?S"
  proof (rule finite_subset)
    show "?S \<subseteq> fst ` set xs" by (auto dest: map_of_Some_key)
  qed simp
  have na': "map_of xs a = None" using Cons.prems x by (simp add: map_of_eq_None_iff)
  then have na: "a \<notin> ?S" by simp
  have eq: "{k. \<exists>s. map_of (x # xs) k = Some s \<and> Q s} = (if Q b then insert a ?S else ?S)"
    using na' by (auto simp: x)
  have d: "distinct (map fst xs)" using Cons.prems by simp
  have l: "length (filter Q (map snd (x # xs))) =
             (if Q b then Suc (length (filter Q (map snd xs))) else length (filter Q (map snd xs)))"
    by (simp add: x)
  have c: "card (if Q b then insert a ?S else ?S) = (if Q b then Suc (card ?S) else card ?S)"
    using card_insert_disjoint [OF fin na] by simp
  show ?case unfolding eq l c Cons.IH [OF d] by (rule refl)
qed

lemma tallied_lookup:
  assumes "tallied stats es"
  shows "(\<exists>s. map_of stats k = Some s \<and> Q (present_n s) (total_n s)) \<longleftrightarrow>
           (0 < entry_count k es \<and> Q (present_count k es) (entry_count k es))"
proof
  assume "\<exists>s. map_of stats k = Some s \<and> Q (present_n s) (total_n s)"
  then obtain s where s: "map_of stats k = Some s" "Q (present_n s) (total_n s)" by blast
  then have "k \<in> set (map fst stats)" by (auto dest: map_of_Some_key)
  then have "k \<in> studentId ` set es" using assms by (simp add: tallied_def)
  then have "0 < entry_count k es" using count_zero [of k es] by auto
  moreover have "total_n s = entry_count k es \<and> present_n s = present_count k es"
    using assms s(1) by (simp add: tallied_def)
  ultimately show "0 < entry_count k es \<and> Q (present_count k es) (entry_count k es)"
    using s(2) by simp
next
  assume a: "0 < entry_count k es \<and> Q (present_count k es) (entry_count k es)"
  then have "k \<in> studentId ` set es" using count_zero [of k es] by auto
  then have "k \<in> fst ` set stats" using assms by (simp add: tallied_def)
  then obtain s where s: "map_of stats k = Some s"
    using map_of_eq_None_iff [of stats k] by (cases "map_of stats k") auto
  then have "total_n s = entry_count k es \<and> present_n s = present_count k es"
    using assms by (simp add: tallied_def)
  with a s show "\<exists>s. map_of stats k = Some s \<and> Q (present_n s) (total_n s)" by auto
qed

lemma tallied_count:
  assumes "tallied stats es"
  shows "length (filter (\<lambda>s. Q (present_n s) (total_n s)) (map snd stats)) =
           card {k. 0 < entry_count k es \<and> Q (present_count k es) (entry_count k es)}"
proof -
  have "distinct (map fst stats)" using assms by (simp add: tallied_def)
  then have "length (filter (\<lambda>s. Q (present_n s) (total_n s)) (map snd stats)) =
      card {k. \<exists>s. map_of stats k = Some s \<and> Q (present_n s) (total_n s)}"
    by (rule count_by_key)
  then show ?thesis using tallied_lookup [OF assms, of _ Q] by simp
qed


text \<open>
  C7. In a report that succeeds, with \<open>es\<close> the entries of the documents in the range,
  \<open>perfectCount\<close> is the number of students who have an entry in \<open>es\<close> and are present
  in every one of their entries; \<open>below75Count\<close> and \<open>chronicAbsenceCount\<close> are the
  numbers of students who have an entry in \<open>es\<close> and whose percentage, as the handler
  computes it, is below 75 and below 50. Each of the three sets requires a positive number
  of entries, so a student with no entry in the range is counted in none of them.
\<close>

theorem report_counts:
  assumes "report students ledger (Some c) (Some f) (Some t) = Report s"
    and "es = all_entries (find_records c f t ledger)"
  shows "perfectCount s =
           card {k. 0 < entry_count k es \<and> present_count k es = entry_count k es} \<and>
         below75Count s =
           card {k. 0 < entry_count k es \<and> pct (present_count k es) (entry_count k es) < 75} \<and>
         chronicAbsenceCount s =
           card {k. 0 < entry_count k es \<and> pct (present_count k es) (entry_count k es) < 50}"
proof -
  from report_Report [OF assms(1)] obtain stats where
    r: "tally_records students [] (find_records c f t ledger) = Inr stats"
       "s = summarise (length (find_records c f t ledger)) stats"
    by auto
  have t: "tallied stats es" using tally_records_ok [OF r(1)] assms(2) by simp
  have p: "perfectCount s = length (filter (\<lambda>s. present_n s = total_n s \<and> 0 < total_n s) (map snd stats))"
    by (simp add: r(2) summarise_def Let_def is_perfect_def [abs_def])
  have b: "below75Count s = length (filter (\<lambda>s. 0 < total_n s \<and> pct (present_n s) (total_n s) < 75) (map snd stats))"
    by (simp add: r(2) summarise_def Let_def is_below75_def [abs_def] percentage_def)
  have h: "chronicAbsenceCount s = length (filter (\<lambda>s. 0 < total_n s \<and> pct (present_n s) (total_n s) < 50) (map snd stats))"
    by (simp add: r(2) summarise_def Let_def is_chronic_def [abs_def] percentage_def)
  have p': "perfectCount s = card {k. 0 < entry_count k es \<and> present_count k es = entry_count k es}"
    using tallied_count [OF t, of "\<lambda>p n. p = n \<and> 0 < n"] p by (simp add: conj_commute cong: conj_cong)
  have b': "below75Count s = card {k. 0 < entry_count k es \<and> pct (present_count k es) (entry_count k es) < 75}"
    using tallied_count [OF t, of "\<lambda>p n. 0 < n \<and> pct p n < 75"] b by simp
  have h': "chronicAbsenceCount s = card {k. 0 < entry_count k es \<and> pct (present_count k es) (entry_count k es) < 50}"
    using tallied_count [OF t, of "\<lambda>p n. 0 < n \<and> pct p n < 50"] h by simp
  show ?thesis using p' b' h' by simp
qed

lemma three_days_found:
  assumes "str_le f ''2024-01-01''" and "str_le ''2024-01-03'' t"
  shows "find_records ''5A'' f t three_days = three_days"
proof -
  have a: "str_le ''2024-01-01'' ''2024-01-02''" "str_le ''2024-01-02'' ''2024-01-03''"
    by simp_all
  have f: "str_le f ''2024-01-02''" "str_le f ''2024-01-03''"
    using assms(1) a by (blast intro: str_le_trans)+
  have t: "str_le ''2024-01-02'' t" "str_le ''2024-01-01'' t"
    using assms(2) a by (blast intro: str_le_trans)+
  show ?thesis using assms f t by (simp add: find_records_def three_days_def)
qed

lemma three_days_tally:
  "tally_records [student_A, student_B] [] three_days = Inr three_days_stats"
  by code_simp

lemma three_days_summarise: "summarise 3 three_days_stats = three_days_summary"
  by code_simp

lemma three_days_report:
  "report [student_A, student_B] three_days (Some ''5A'') (Some ''2024-01-01'')
     (Some ''2024-01-03'') = Report three_days_summary"
  by code_simp

theorem report_counts_witness:
  "report [student_A, student_B] three_days (Some ''5A'') (Some ''2024-01-01'')
     (Some ''2024-01-03'') = Report three_days_summary \<and>
   perfectCount three_days_summary =
     card {k. 0 < entry_count k (all_entries (find_records ''5A'' ''2024-01-01'' ''2024-01-03'' three_days)) \<and>
              present_count k (all_entries (find_records ''5A'' ''2024-01-01'' ''2024-01-03'' three_days)) =
              entry_count k (all_entries (find_records ''5A'' ''2024-01-01'' ''2024-01-03'' three_days))} \<and>
   perfectCount three_days_summary = 0"
proof -
  note t = report_counts [OF three_days_report refl]
  have z: "perfectCount three_days_summary = 0" by (simp add: three_days_summary_def)
  show ?thesis using three_days_report t z by blast
qed

text \<open>
  C1, with the count the code gives. For the three stored days (day 1: S1 present, S2
  absent; day 2: both present; day 3: S1 absent) and every range that covers them, the
  report has average 60, perfectCount 0, below75Count 2, days 3, two students tracked, and
  chronicAbsenceCount 0: the test is \<^verbatim>\<open>< 50\<close>, and neither S1 at two of three nor
  S2 at one of two is below 50. The tallies are S1 present 2 of 3 and S2 present 1 of 2.
\<close>

theorem report_three_days:
  assumes "f \<noteq> []" and "str_le f ''2024-01-01''" and "str_le ''2024-01-03'' t"
  shows "report [student_A, student_B] three_days (Some ''5A'') (Some f) (Some t) =
           Report \<lparr>average = 60, perfectCount = 0, below75Count = 2, chronicAbsenceCount = 0,
                   days = 3, totalStudentsTracked = 2\<rparr> \<and>
         tally_records [student_A, student_B] [] (find_records ''5A'' f t three_days) =
           Inr [(''s1'', \<lparr>name = ''Aarav Kumar'', present_n = 2, total_n = 3\<rparr>),
                (''s2'', \<lparr>name = ''Diya Patel'', present_n = 1, total_n = 2\<rparr>)]"
proof -
  have t: "t \<noteq> []" using assms(3) by (cases t) auto
  have c: "''5A'' \<noteq> []" by simp
  have l: "length three_days = 3" by (simp add: three_days_def)
  have r: "report [student_A, student_B] three_days (Some ''5A'') (Some f) (Some t) =
      Report three_days_summary"
    using report_valid [OF c assms(1) t, of "[student_A, student_B]" three_days]
    by (simp add: three_days_found [OF assms(2,3)] three_days_tally l three_days_summarise)
  have y: "tally_records [student_A, student_B] [] (find_records ''5A'' f t three_days) =
      Inr three_days_stats"
    by (simp add: three_days_found [OF assms(2,3)] three_days_tally)
  show ?thesis
    using r y by (simp add: three_days_stats_def three_days_summary_def)
qed

theorem report_three_days_witness:
  "''2024-01-01'' \<noteq> [] \<and> str_le ''2024-01-01'' ''2024-01-01'' \<and>
   str_le ''2024-01-03'' ''2024-12-31'' \<and>
   report [student_A, student_B] three_days (Some ''5A'') (Some ''2024-01-01'')
     (Some ''2024-12-31'') =
     Report \<lparr>average = 60, perfectCount = 0, below75Count = 2, chronicAbsenceCount = 0,
             days = 3, totalStudentsTracked = 2\<rparr>"
proof -
  have h1: "''2024-01-01'' \<noteq> []" and h2: "str_le ''2024-01-01'' ''2024-01-01''"
    and h3: "str_le ''2024-01-03'' ''2024-12-31''"
    by simp_all
  from report_three_days [OF h1 h2 h3] h1 h2 h3 show ?thesis by blast
qed

theorem report_three_days_counterexample:
  "report [student_A, student_B] three_days (Some ''5A'') (Some ''2024-01-01'')
     (Some ''2024-01-03'') \<noteq>
     Report \<lparr>average = 60, perfectCount = 0, below75Count = 2, chronicAbsenceCount = 1,
             days = 3, totalStudentsTracked = 2\<rparr>"
  by code_simp

text \<open>
  C5, as the code has it. For a well-formed query, the report fails with status 500 as
  soon as one entry of a document in the range names a student the roster does not hold
  (populate leaves \<^verbatim>\<open>null\<close>, and \<^verbatim>\<open>e.studentId._id\<close> throws); it succeeds when
  every such entry resolves.
\<close>

theorem report_unresolved_student:
  assumes "c \<noteq> []" and "f \<noteq> []" and "t \<noteq> []"
  shows "((\<exists>e \<in> set (all_entries (find_records c f t ledger)). populate students e = None) \<longrightarrow>
            report students ledger (Some c) (Some f) (Some t) =
              ReportFailed 500 ''Failed to generate report'') \<and>
         ((\<forall>e \<in> set (all_entries (find_records c f t ledger)). populate students e \<noteq> None) \<longrightarrow>
            (\<exists>s. report students ledger (Some c) (Some f) (Some t) = Report s))"
proof (cases "tally_records students [] (find_records c f t ledger)")
  case (Inl err)
  then have "\<not> (\<forall>e \<in> set (all_entries (find_records c f t ledger)). populate students e \<noteq> None)"
    using tally_records_succeeds [of students "[]" "find_records c f t ledger"] by simp
  with Inl show ?thesis by (simp add: report_valid [OF assms])
next
  case (Inr stats)
  then have "\<forall>e \<in> set (all_entries (find_records c f t ledger)). populate students e \<noteq> None"
    using tally_records_succeeds [of students "[]" "find_records c f t ledger"] by blast
  with Inr show ?thesis by (simp add: report_valid [OF assms])
qed

theorem report_unresolved_student_witness:
  "''5A'' \<noteq> [] \<and> ''2024-01-01'' \<noteq> [] \<and> ''2024-01-03'' \<noteq> [] \<and>
   populate [student_B] (stored ''s1'' True) = None \<and>
   stored ''s1'' True \<in>
     set (all_entries (find_records ''5A'' ''2024-01-01'' ''2024-01-03'' three_days)) \<and>
   report [student_B] three_days (Some ''5A'') (Some ''2024-01-01'') (Some ''2024-01-03'') =
     ReportFailed 500 ''Failed to generate report''"
proof -
  have h1: "''5A'' \<noteq> []" and h2: "''2024-01-01'' \<noteq> []" and h3: "''2024-01-03'' \<noteq> []"
    by simp_all
  have p: "populate [student_B] (stored ''s1'' True) = None"
    by (simp add: populate_def student_B_def stored_def)
  have fr: "find_records ''5A'' ''2024-01-01'' ''2024-01-03'' three_days = three_days"
    by (rule three_days_found) simp_all
  have "stored ''s1'' True \<in> set (all_entries three_days)"
    by (simp add: all_entries_def three_days_def)
  then have m: "stored ''s1'' True \<in>
     set (all_entries (find_records ''5A'' ''2024-01-01'' ''2024-01-03'' three_days))"
    by (simp only: fr)
  from report_unresolved_student [OF h1 h2 h3, of three_days "[student_B]"] p m h1 h2 h3
  show ?thesis by blast
qed

theorem report_unresolved_student_counterexample:
  "report [student_B] three_days (Some ''5A'') (Some ''2024-01-01'') (Some ''2024-01-03'') =
     ReportFailed 500 ''Failed to generate report''"
  by code_simp

text \<open>
  C8. In a report that succeeds for class \<open>c\<close> and range \<open>f\<close> to \<open>t\<close>, \<open>days\<close> is the
  number of documents of the ledger with that class name and a date \<open>d\<close> with
  \<open>f \<le> d \<le> t\<close>, both ends included, in the order \<open>str_le\<close>, which is the lexicographic
  order of the strings by character code. On a ledger that respects the unique index that
  is the number of dates in the range for which the class has a document; a date
  without a document adds nothing.
\<close>

theorem report_days:
  assumes "report students ledger (Some c) (Some f) (Some t) = Report s"
  shows "days s =
           length (filter (\<lambda>r. className r = c \<and> str_le f (date r) \<and> str_le (date r) t) ledger) \<and>
         (unique_keys ledger \<longrightarrow>
            days s = card {d. str_le f d \<and> str_le d t \<and>
                              (\<exists>r \<in> set ledger. className r = c \<and> date r = d)}) \<and>
         (\<forall>a b. str_le a b \<longleftrightarrow>
            a = b \<or> (a, b) \<in> lexord {(x, y). (of_char x :: nat) < of_char y})"
proof -
  from report_Report [OF assms] obtain stats where
    "s = summarise (length (find_records c f t ledger)) stats"
    by auto
  then have d: "days s = length (find_records c f t ledger)"
    by (simp add: summarise_def Let_def)
  then have "days s =
      length (filter (\<lambda>r. className r = c \<and> str_le f (date r) \<and> str_le (date r) t) ledger)"
    by (simp add: find_records_def)
  moreover have "unique_keys ledger \<Longrightarrow>
      days s = card {d. str_le f d \<and> str_le d t \<and>
                        (\<exists>r \<in> set ledger. className r = c \<and> date r = d)}"
    using d days_card [of ledger c f t] by simp
  ultimately show ?thesis using str_le_lexord by blast
qed

theorem report_days_witness:
  "report [student_A, student_B] three_days (Some ''5A'') (Some ''2024-01-01'')
     (Some ''2024-01-02'') =
     Report \<lparr>average = 75, perfectCount = 1, below75Count = 1, chronicAbsenceCount = 0,
             days = 2, totalStudentsTracked = 2\<rparr> \<and>
   (2 :: nat) =
     length (filter (\<lambda>r. className r = ''5A'' \<and> str_le ''2024-01-01'' (date r) \<and>
                          str_le (date r) ''2024-01-02'') three_days)"
proof -
  have h: "report [student_A, student_B] three_days (Some ''5A'') (Some ''2024-01-01'')
     (Some ''2024-01-02'') =
     Report \<lparr>average = 75, perfectCount = 1, below75Count = 1, chronicAbsenceCount = 0,
             days = 2, totalStudentsTracked = 2\<rparr>"
    by code_simp
  from report_days [OF h, THEN conjunct1] h show ?thesis by simp
qed

section \<open>The rounding of the average\<close>

lemma pow2_powi: "pow2 k = 2 powi k"
  by (simp add: pow2_def power_int_def inverse_eq_divide power_one_over)

lemma pow2_pos: "0 < pow2 k"
  by (simp add: pow2_powi)

lemma pow2_add: "pow2 (i + j) = pow2 i * pow2 j"
  by (simp add: pow2_powi power_int_add)

lemma pow2_mono: "i \<le> j \<Longrightarrow> pow2 i \<le> pow2 j"
  by (simp add: pow2_powi power_int_increasing)

lemma ilog2_le:
  assumes "0 < x"
  shows "pow2 (ilog2 x) \<le> x"
proof -
  obtain a b where q: "quotient_of x = (a, b)" by (cases "quotient_of x")
  have b: "0 < b" using quotient_of_denom_pos [OF q] .
  have x: "x = of_int a / of_int b" using quotient_of_div [OF q] .
  have a: "0 < a" using assms b x by (simp add: zero_less_divide_iff)
  let ?k = "bitlen a - bitlen b"
  show ?thesis
  proof (cases "pow2 ?k \<le> x")
    case True
    then show ?thesis by (simp add: ilog2_def q)
  next
    case False
    then have i: "ilog2 x = ?k - 1" by (simp add: ilog2_def q)
    from bitlen_bounds [OF a] have la: "2 ^ nat (bitlen a - 1) \<le> a" by simp
    from bitlen_bounds [OF b] have lb: "b < 2 ^ nat (bitlen b)" by simp
    have pa: "0 < bitlen a" using a bitlen_eq_zero_iff [of a] bitlen_nonneg [of a] by linarith
    have pb: "0 < bitlen b" using b bitlen_eq_zero_iff [of b] bitlen_nonneg [of b] by linarith
    have 1: "pow2 (bitlen a - 1) \<le> of_int a"
    proof -
      have "(of_int (2 ^ nat (bitlen a - 1)) :: rat) \<le> of_int a" using la by (simp only: of_int_le_iff)
      then show ?thesis using pa by (simp add: pow2_def)
    qed
    have 2: "(of_int b :: rat) \<le> pow2 (bitlen b)"
    proof -
      have "(of_int b :: rat) \<le> of_int (2 ^ nat (bitlen b))" using lb by (simp only: of_int_le_iff)
      then show ?thesis using pb by (simp add: pow2_def)
    qed
    have "pow2 (?k - 1) * of_int b \<le> pow2 (?k - 1) * pow2 (bitlen b)"
      using 2 pow2_pos [of "?k - 1"] by (simp add: mult_left_mono)
    also have "\<dots> = pow2 (bitlen a - 1)"
      by (simp add: pow2_add [symmetric])
    also have "\<dots> \<le> of_int a" by (rule 1)
    finally have "pow2 (?k - 1) \<le> of_int a / of_int b"
      using b by (simp add: pos_le_divide_eq)
    then have "pow2 (?k - 1) \<le> x" by (simp only: x)
    then show ?thesis by (simp only: i)
  qed
qed

lemma ilog2_less:
  assumes "0 < x"
  shows "x < pow2 (ilog2 x + 1)"
proof -
  obtain a b where q: "quotient_of x = (a, b)" by (cases "quotient_of x")
  have b: "0 < b" using quotient_of_denom_pos [OF q] .
  have x: "x = of_int a / of_int b" using quotient_of_div [OF q] .
  have a: "0 < a" using assms b x by (simp add: zero_less_divide_iff)
  let ?k = "bitlen a - bitlen b"
  show ?thesis
  proof (cases "pow2 ?k \<le> x")
    case False
    then show ?thesis by (simp add: ilog2_def q)
  next
    case True
    then have i: "ilog2 x = ?k" by (simp add: ilog2_def q)
    from bitlen_bounds [OF a] have la: "a < 2 ^ nat (bitlen a)" by simp
    from bitlen_bounds [OF b] have lb: "2 ^ nat (bitlen b - 1) \<le> b" by simp
    have pa: "0 < bitlen a" using a bitlen_eq_zero_iff [of a] bitlen_nonneg [of a] by linarith
    have pb: "0 < bitlen b" using b bitlen_eq_zero_iff [of b] bitlen_nonneg [of b] by linarith
    have 1: "of_int a < pow2 (bitlen a)"
    proof -
      have "(of_int a :: rat) < of_int (2 ^ nat (bitlen a))" using la by (simp only: of_int_less_iff)
      then show ?thesis using pa by (simp add: pow2_def)
    qed
    have 2: "pow2 (bitlen b - 1) \<le> of_int b"
    proof -
      have "(of_int (2 ^ nat (bitlen b - 1)) :: rat) \<le> of_int b" using lb by (simp only: of_int_le_iff)
      then show ?thesis using pb by (simp add: pow2_def)
    qed
    have "of_int a < pow2 (bitlen a)" by (rule 1)
    also have "\<dots> = pow2 (?k + 1) * pow2 (bitlen b - 1)"
      by (simp add: pow2_add [symmetric])
    also have "\<dots> \<le> pow2 (?k + 1) * of_int b"
      using 2 pow2_pos [of "?k + 1"] by (simp add: mult_left_mono)
    finally have "of_int a / of_int b < pow2 (?k + 1)"
      using b by (simp add: pos_divide_less_eq)
    then have "x < pow2 (?k + 1)" by (simp only: x)
    then show ?thesis by (simp only: i)
  qed
qed

lemma round_even_err: "\<bar>of_int (round_even m) - m\<bar> \<le> 1 / 2"
proof -
  have "of_int \<lfloor>m\<rfloor> \<le> m" "m < of_int \<lfloor>m\<rfloor> + 1" by linarith+
  then show ?thesis by (auto simp: round_even_def Let_def)
qed

lemma round_even_nonneg: "0 \<le> m \<Longrightarrow> 0 \<le> round_even m"
  by (auto simp: round_even_def Let_def)

lemma fl_nonneg:
  assumes "0 \<le> x"
  shows "0 \<le> fl x"
proof (cases "x = 0")
  case True
  then show ?thesis by (simp add: fl_def)
next
  case False
  let ?u = "pow2 (max (ilog2 x) (- 1022) - 52)"
  have u: "0 < ?u" by (rule pow2_pos)
  have p: "0 < x" using assms False by simp
  have f: "fl x = of_int (round_even (x / ?u)) * ?u"
    using p by (simp add: fl_def Let_def)
  have "0 \<le> round_even (x / ?u)" using p u by (simp add: round_even_nonneg)
  then show ?thesis using u by (simp add: f)
qed

lemma fl_err:
  assumes "0 \<le> x"
  shows "\<bar>fl x - x\<bar> \<le> (x + pow2 (- 1022)) * pow2 (- 53)"
proof (cases "x = 0")
  case True
  then show ?thesis using pow2_pos [of "- 1022"] pow2_pos [of "- 53"] by (simp add: fl_def)
next
  case False
  then have p: "0 < x" using assms by simp
  let ?e = "max (ilog2 x) (- 1022)"
  let ?u = "pow2 (?e - 52)"
  have u: "0 < ?u" by (rule pow2_pos)
  have f: "fl x = of_int (round_even (x / ?u)) * ?u"
    using p by (simp add: fl_def Let_def)
  have "\<bar>fl x - x\<bar> = \<bar>of_int (round_even (x / ?u)) - x / ?u\<bar> * ?u"
  proof -
    have "fl x - x = (of_int (round_even (x / ?u)) - x / ?u) * ?u"
      using u by (simp add: f algebra_simps)
    then show ?thesis using u by (simp add: abs_mult)
  qed
  also have "\<dots> \<le> (1 / 2) * ?u"
    using round_even_err [of "x / ?u"] u by (simp add: mult_right_mono)
  also have "(1 / 2) * ?u = pow2 ?e * pow2 (- 53)"
  proof -
    have "?u = pow2 ?e * pow2 (- 52)" using pow2_add [of ?e "- 52"] by simp
    moreover have "pow2 (- 52) = 2 * pow2 (- 53)" by (simp add: pow2_def)
    ultimately show ?thesis by simp
  qed
  also have "\<dots> \<le> (x + pow2 (- 1022)) * pow2 (- 53)"
  proof -
    have "pow2 ?e \<le> x + pow2 (- 1022)"
    proof (cases "ilog2 x \<le> - 1022")
      case True
      then have "?e = - 1022" by simp
      then show ?thesis using p by simp
    next
      case False
      then have "?e = ilog2 x" by simp
      then show ?thesis using ilog2_le [OF p] pow2_pos [of "- 1022"] by simp
    qed
    then show ?thesis using pow2_pos [of "- 53"] by (simp add: mult_right_mono)
  qed
  finally show ?thesis .
qed


lemma floor_half: "\<lfloor>1 / 2 :: rat\<rfloor> = 0"
  by (rule floor_unique) simp_all

lemma toFixed1_nonneg: "0 \<le> x \<Longrightarrow> toFixed1 x = of_int \<lfloor>10 * x + 1 / 2\<rfloor> / 10"
  by (cases "x = 0") (simp_all add: toFixed1_def floor_half)

lemma pct_close:
  assumes "P \<le> T" and "0 < T"
  shows "0 \<le> pct P T"
    and "\<bar>pct P T - 100 * of_nat P / of_nat T\<bar> \<le> 201 / 2 ^ 53"
proof -
  let ?p = "of_nat P / of_nat T :: rat"
  let ?d = "1 / 2 ^ 53 :: rat"
  have d: "pow2 (- 53) = ?d" by (simp add: pow2_def)
  have m: "pow2 (- 1022) \<le> ?d" using pow2_mono [of "- 1022" "- 53"] by (simp add: d)
  have m0: "0 < pow2 (- 1022)" by (rule pow2_pos)
  have p0: "0 \<le> ?p" by simp
  have p1: "?p \<le> 1" using assms by (simp add: divide_le_eq_1)
  let ?x1 = "fl ?p"
  have x0: "0 \<le> ?x1" using p0 by (rule fl_nonneg)
  have "\<bar>?x1 - ?p\<bar> \<le> (?p + pow2 (- 1022)) * ?d" using fl_err [OF p0] by (simp only: d)
  also have "\<dots> \<le> (1 + ?d) * ?d"
    using p1 m by (intro mult_right_mono add_mono) simp_all
  finally have e1: "\<bar>?x1 - ?p\<bar> \<le> (1 + ?d) * ?d" .
  then have u1: "?x1 \<le> 1 + (1 + ?d) * ?d" using p1 by linarith
  let ?x2 = "fl (?x1 * 100)"
  have y0: "0 \<le> ?x1 * 100" using x0 by simp
  have "\<bar>?x2 - ?x1 * 100\<bar> \<le> (?x1 * 100 + pow2 (- 1022)) * ?d"
    using fl_err [OF y0] by (simp only: d)
  also have "\<dots> \<le> ((1 + (1 + ?d) * ?d) * 100 + ?d) * ?d"
    using u1 m by (intro mult_right_mono add_mono) simp_all
  finally have e2: "\<bar>?x2 - ?x1 * 100\<bar> \<le> ((1 + (1 + ?d) * ?d) * 100 + ?d) * ?d" .
  have "?x2 - 100 * ?p = (?x2 - ?x1 * 100) + 100 * (?x1 - ?p)" by simp
  then have "\<bar>?x2 - 100 * ?p\<bar> \<le> \<bar>?x2 - ?x1 * 100\<bar> + \<bar>100 * (?x1 - ?p)\<bar>"
    using abs_triangle_ineq [of "?x2 - ?x1 * 100" "100 * (?x1 - ?p)"] by simp
  also have "\<bar>100 * (?x1 - ?p)\<bar> = 100 * \<bar>?x1 - ?p\<bar>"
    by (simp only: abs_mult abs_numeral)
  finally have "\<bar>?x2 - 100 * ?p\<bar> \<le> \<bar>?x2 - ?x1 * 100\<bar> + 100 * \<bar>?x1 - ?p\<bar>" .
  also have "\<dots> \<le> ((1 + (1 + ?d) * ?d) * 100 + ?d) * ?d + 100 * ((1 + ?d) * ?d)"
    by (intro add_mono mult_left_mono e1 e2) simp
  also have "\<dots> \<le> 201 / 2 ^ 53" by simp
  finally have "\<bar>?x2 - 100 * ?p\<bar> \<le> 201 / 2 ^ 53" .
  then show "\<bar>pct P T - 100 * of_nat P / of_nat T\<bar> \<le> 201 / 2 ^ 53"
    by (simp add: pct_def js_mul_def js_div_def)
  show "0 \<le> pct P T" using fl_nonneg [OF y0] by (simp add: pct_def js_mul_def js_div_def)
qed

lemma tenth_nearest:
  assumes "P \<le> T" and "0 < T" and "T \<le> 2 ^ 41"
  shows "\<exists>n :: int. toFixed1 (pct P T) = of_int n / 10 \<and>
           \<bar>(of_int n :: rat) / 10 - 100 * of_nat P / of_nat T\<bar> \<le> 1 / 20"
proof -
  let ?x = "pct P T"
  let ?n = "\<lfloor>10 * ?x + 1 / 2\<rfloor>"
  let ?t = "of_nat T :: rat"
  have t0: "0 < ?t" using assms(2) by simp
  have t1: "?t \<le> 2 ^ 41"
  proof -
    have "(of_nat T :: rat) \<le> of_nat (2 ^ 41)" using assms(3) by (simp only: of_nat_le_iff)
    then show ?thesis by simp
  qed
  have x0: "0 \<le> ?x" and xe: "\<bar>?x - 100 * of_nat P / ?t\<bar> \<le> 201 / 2 ^ 53"
    using pct_close [OF assms(1,2)] by simp_all
  have f: "toFixed1 ?x = of_int ?n / 10" using x0 by (rule toFixed1_nonneg)
  have r: "\<bar>of_int ?n - 10 * ?x\<bar> \<le> 1 / 2" by linarith
  have "\<bar>of_int ?n - 1000 * of_nat P / ?t\<bar> \<le> 1 / 2 + 10 * (201 / 2 ^ 53)"
    using r xe by linarith
  then have "\<bar>of_int ?n - 1000 * of_nat P / ?t\<bar> * (2 * ?t) \<le> (1 / 2 + 10 * (201 / 2 ^ 53)) * (2 * ?t)"
    using t0 by (intro mult_right_mono) simp_all
  moreover have "\<bar>of_int ?n - 1000 * of_nat P / ?t\<bar> * (2 * ?t) =
      \<bar>of_int (2 * ?n * int T - 2000 * int P) :: rat\<bar>"
  proof -
    have "(of_int ?n - 1000 * of_nat P / ?t) * (2 * ?t) = of_int (2 * ?n * int T - 2000 * int P)"
      using t0 by (simp add: field_simps)
    moreover have "\<bar>of_int ?n - 1000 * of_nat P / ?t\<bar> * (2 * ?t) =
        \<bar>(of_int ?n - 1000 * of_nat P / ?t) * (2 * ?t)\<bar>"
      using t0 by (simp add: abs_mult)
    ultimately show ?thesis by simp
  qed
  moreover have "(1 / 2 + 10 * (201 / 2 ^ 53)) * (2 * ?t) < ?t + 1"
  proof -
    have "(1 / 2 + 10 * (201 / 2 ^ 53)) * (2 * ?t) = ?t + (4020 / 2 ^ 53) * ?t"
      by (simp add: algebra_simps)
    also have "\<dots> \<le> ?t + (4020 / 2 ^ 53) * 2 ^ 41"
      using t1 by (intro add_left_mono mult_left_mono) simp_all
    also have "\<dots> < ?t + 1" by simp
    finally show ?thesis .
  qed
  ultimately have "\<bar>of_int (2 * ?n * int T - 2000 * int P) :: rat\<bar> < of_int (int T + 1)"
    by simp
  then have "\<bar>2 * ?n * int T - 2000 * int P\<bar> < int T + 1"
    by (simp only: of_int_abs [symmetric] of_int_less_iff)
  then have i: "\<bar>2 * ?n * int T - 2000 * int P\<bar> \<le> int T" by simp
  have "\<bar>of_int ?n / 10 - 100 * of_nat P / ?t\<bar> =
      \<bar>of_int (2 * ?n * int T - 2000 * int P) :: rat\<bar> / (20 * ?t)"
  proof -
    have "of_int ?n / 10 - 100 * of_nat P / ?t =
        of_int (2 * ?n * int T - 2000 * int P) / (20 * ?t)"
      using t0 by (simp add: field_simps)
    then show ?thesis using t0 by (simp add: abs_divide del: of_int_diff of_int_mult)
  qed
  also have "\<dots> \<le> of_int (int T) / (20 * ?t)"
  proof -
    have "\<bar>of_int (2 * ?n * int T - 2000 * int P) :: rat\<bar> \<le> of_int (int T)"
      using i by (simp only: of_int_abs [symmetric] of_int_le_iff)
    then show ?thesis using t0 by (intro divide_right_mono) simp_all
  qed
  also have "\<dots> = 1 / 20" using t0 by simp
  finally have "\<bar>of_int ?n / 10 - 100 * of_nat P / ?t\<bar> \<le> 1 / 20" .
  with f show ?thesis by blast
qed

lemma sum_indicator:
  "distinct ks \<Longrightarrow> a \<in> set ks \<Longrightarrow> sum_list (map (\<lambda>k. if a = k then 1 else 0) ks) = (1 :: nat)"
proof (induction ks)
  case Nil
  then show ?case by simp
next
  case (Cons k ks)
  show ?case
  proof (cases "a = k")
    case True
    then have "a \<notin> set ks" using Cons.prems by simp
    then have "sum_list (map (\<lambda>k. if a = k then 1 else 0) ks) = (0 :: nat)"
      by (induction ks) auto
    with True show ?thesis by simp
  next
    case False
    with Cons show ?thesis by simp
  qed
qed

lemma sum_counts:
  assumes "distinct ks" and "f ` set es \<subseteq> set ks"
  shows "sum_list (map (\<lambda>k. length (filter (\<lambda>e. f e = k \<and> Q e) es)) ks) = length (filter Q es)"
  using assms(2)
proof (induction es)
  case Nil
  then show ?case by simp
next
  case (Cons e es)
  have m: "f e \<in> set ks" using Cons.prems by simp
  have "sum_list (map (\<lambda>k. length (filter (\<lambda>x. f x = k \<and> Q x) (e # es))) ks) =
      sum_list (map (\<lambda>k. (if Q e then (if f e = k then 1 else 0) else 0) +
                          length (filter (\<lambda>x. f x = k \<and> Q x) es)) ks)"
    by (intro arg_cong [where f = sum_list] map_cong) auto
  also have "\<dots> = sum_list (map (\<lambda>k. if Q e then (if f e = k then 1 else 0) else 0) ks) +
      sum_list (map (\<lambda>k. length (filter (\<lambda>x. f x = k \<and> Q x) es)) ks)"
    by (simp add: sum_list_addf)
  also have "sum_list (map (\<lambda>k. if Q e then (if f e = k then 1 else 0) else 0) ks) =
      (if Q e then 1 else (0 :: nat))"
    using sum_indicator [OF assms(1) m] by simp
  also have "sum_list (map (\<lambda>k. length (filter (\<lambda>x. f x = k \<and> Q x) es)) ks) = length (filter Q es)"
    using Cons by simp
  finally show ?case by simp
qed

lemma foldl_plus: "foldl (\<lambda>a s. a + g s) (n :: nat) vals = n + sum_list (map g vals)"
  by (induction vals arbitrary: n) simp_all

lemma tallied_sums:
  assumes "tallied stats es"
  shows "sum_list (map (total_n \<circ> snd) stats) = length es"
    and "sum_list (map (present_n \<circ> snd) stats) = length (filter present es)"
proof -
  have d: "distinct (map fst stats)" and k: "set (map fst stats) = studentId ` set es"
    using assms by (simp_all add: tallied_def)
  have v: "total_n (snd x) = entry_count (fst x) es \<and> present_n (snd x) = present_count (fst x) es"
    if "x \<in> set stats" for x
  proof -
    have "map_of stats (fst x) = Some (snd x)" using d that by simp
    then show ?thesis using assms by (simp add: tallied_def)
  qed
  have "map (total_n \<circ> snd) stats = map ((\<lambda>k. entry_count k es) \<circ> fst) stats"
    by (rule map_cong) (simp_all add: v)
  then have "sum_list (map (total_n \<circ> snd) stats) =
      sum_list (map ((\<lambda>k. entry_count k es) \<circ> fst) stats)"
    by (rule arg_cong)
  also have "\<dots> =
      sum_list (map (\<lambda>k. length (filter (\<lambda>e. studentId e = k \<and> True) es)) (map fst stats))"
    by (simp add: entry_count_def comp_def)
  also have "\<dots> = length (filter (\<lambda>e. True) es)"
    using d k by (intro sum_counts) simp_all
  finally show "sum_list (map (total_n \<circ> snd) stats) = length es" by simp
  have "map (present_n \<circ> snd) stats = map ((\<lambda>k. present_count k es) \<circ> fst) stats"
    by (rule map_cong) (simp_all add: v)
  then have "sum_list (map (present_n \<circ> snd) stats) =
      sum_list (map ((\<lambda>k. present_count k es) \<circ> fst) stats)"
    by (rule arg_cong)
  also have "\<dots> =
      sum_list (map (\<lambda>k. length (filter (\<lambda>e. studentId e = k \<and> present e) es)) (map fst stats))"
    by (simp add: present_count_def comp_def)
  also have "\<dots> = length (filter present es)"
    using d k by (intro sum_counts) simp_all
  finally show "sum_list (map (present_n \<circ> snd) stats) = length (filter present es)" .
qed

lemma summarise_average:
  "average (summarise n stats) =
     average_of (sum_list (map (present_n \<circ> snd) stats)) (sum_list (map (total_n \<circ> snd) stats))"
  by (simp add: summarise_def Let_def foldl_plus comp_def)

lemma report_average_of:
  assumes "report students ledger (Some c) (Some f) (Some t) = Report s"
    and "es = all_entries (find_records c f t ledger)"
  shows "average s = average_of (length (filter present es)) (length es)"
proof -
  from report_Report [OF assms(1)] obtain stats where
    r: "tally_records students [] (find_records c f t ledger) = Inr stats"
       "s = summarise (length (find_records c f t ledger)) stats"
    by auto
  have t: "tallied stats es" using tally_records_ok [OF r(1)] assms(2) by simp
  show ?thesis using tallied_sums [OF t] by (simp add: r(2) summarise_average)
qed

text \<open>
  C6, as the code has it. In a report that succeeds, with \<open>es\<close> the entries of the
  documents in the range, the sums of the per-student present and total counts are the
  number \<open>P\<close> of present entries and the number \<open>T\<close> of entries of \<open>es\<close>. The average is
  0 when \<open>T\<close> is 0. When \<open>T\<close> is positive and at most \<open>2 ^ 41\<close>, the average is what
  \<^verbatim>\<open>parseFloat\<close> reads from a decimal \<open>n / 10\<close> that is a nearest tenth of the exact
  percentage: \<open>n / 10\<close> is within \<open>1 / 20\<close> of \<open>100 * P / T\<close>. When the exact
  percentage lies midway between two tenths, either may come out: 41 of 80 is 51.25 and
  is reported as 51.2 (\<open>average_tie\<close>). Beyond \<open>2 ^ 41\<close> entries the two roundings of
  the division and the multiplication can carry the result past the midpoint.
\<close>

theorem report_average:
  assumes "report students ledger (Some c) (Some f) (Some t) = Report s"
    and "es = all_entries (find_records c f t ledger)"
    and "P = length (filter present es)" and "T = length es"
  shows "\<exists>stats. tally_records students [] (find_records c f t ledger) = Inr stats \<and>
           P = sum_list (map (present_n \<circ> snd) stats) \<and>
           T = sum_list (map (total_n \<circ> snd) stats) \<and>
           (T = 0 \<longrightarrow> average s = 0) \<and>
           (0 < T \<and> T \<le> 2 ^ 41 \<longrightarrow>
              (\<exists>n :: int. average s = parseFloat (of_int n / 10) \<and>
                 \<bar>(of_int n :: rat) / 10 - 100 * of_nat P / of_nat T\<bar> \<le> 1 / 20))"
proof -
  from report_Report [OF assms(1)] obtain stats where
    r: "tally_records students [] (find_records c f t ledger) = Inr stats"
    by auto
  have t: "tallied stats es" using tally_records_ok [OF r] assms(2) by simp
  have a: "average s = average_of P T"
    using report_average_of [OF assms(1,2)] assms(3,4) by simp
  have le: "P \<le> T" using assms(3,4) by simp
  have z: "T = 0 \<Longrightarrow> average s = 0"
    by (simp add: a average_of_def parseFloat_def fl_def)
  have n: "\<exists>n :: int. average s = parseFloat (of_int n / 10) \<and>
      \<bar>(of_int n :: rat) / 10 - 100 * of_nat P / of_nat T\<bar> \<le> 1 / 20"
    if "0 < T" and "T \<le> 2 ^ 41"
  proof -
    from tenth_nearest [OF le that] obtain n :: int where
      n: "toFixed1 (pct P T) = of_int n / 10"
         "\<bar>(of_int n :: rat) / 10 - 100 * of_nat P / of_nat T\<bar> \<le> 1 / 20"
      by blast
    have "average s = parseFloat (of_int n / 10)"
      using that(1) by (simp only: a average_of_def n(1) if_True)
    with n(2) show ?thesis by blast
  qed
  show ?thesis using r tallied_sums [OF t] assms(3,4) z n by auto
qed


lemma uniform_day_entries:
  "all_entries (find_records ''5A'' ''2024-01-01'' ''2024-01-01'' (uniform_day p a)) =
     replicate p (stored ''s1'' True) @ replicate a (stored ''s1'' False)"
  by (simp add: find_records_def uniform_day_def all_entries_def)

lemma uniform_day_report:
  "average_reported
     (report [student_A] (uniform_day p a) (Some ''5A'') (Some ''2024-01-01'')
        (Some ''2024-01-01'')) = Some (average_of p (p + a))"
proof -
  let ?recs = "find_records ''5A'' ''2024-01-01'' ''2024-01-01'' (uniform_day p a)"
  have "\<forall>e \<in> set (all_entries ?recs). populate [student_A] e \<noteq> None"
    by (auto simp: uniform_day_entries populate_def student_A_def stored_def)
  then obtain stats where r: "tally_records [student_A] [] ?recs = Inr stats"
    using tally_records_succeeds [of "[student_A]" "[]" ?recs] by blast
  have v: "report [student_A] (uniform_day p a) (Some ''5A'') (Some ''2024-01-01'')
      (Some ''2024-01-01'') = Report (summarise (length ?recs) stats)"
    by (simp add: report_valid r)
  have "average (summarise (length ?recs) stats) =
      average_of (length (filter present (all_entries ?recs))) (length (all_entries ?recs))"
    using v by (rule report_average_of) simp
  also have "\<dots> = average_of p (p + a)"
    by (simp add: uniform_day_entries stored_def)
  finally show ?thesis by (simp add: v average_reported_def)
qed

lemma average_beyond_rat:
  "parseFloat (toFixed1 (js_mul (js_div 4073829523559 5576768683859) 100)) = 73"
  by code_simp

lemma average_beyond: "average_of 4073829523559 5576768683859 = 73"
  using average_beyond_rat by (simp add: average_of_def pct_def)

lemma average_tie_rat:
  "parseFloat (toFixed1 (js_mul (js_div 41 80) 100)) = parseFloat (512 / 10)"
  by code_simp

lemma average_tie: "average_of 41 80 = parseFloat (512 / 10)"
  using average_tie_rat by (simp add: average_of_def pct_def)

theorem report_average_counterexample:
  "average_reported
     (report [student_A] (uniform_day 4073829523559 1502939160300) (Some ''5A'')
        (Some ''2024-01-01'') (Some ''2024-01-01'')) = Some 73 \<and>
   (1 :: rat) / 20 < 100 * 4073829523559 / 5576768683859 - 73 \<and>
   average_reported
     (report [student_A] (uniform_day 41 39) (Some ''5A'')
        (Some ''2024-01-01'') (Some ''2024-01-01'')) = Some (parseFloat (512 / 10)) \<and>
   (100 :: rat) * 41 / 80 = 5125 / 100"
proof -
  have "average_of 4073829523559 (4073829523559 + 1502939160300) = 73"
    using average_beyond by simp
  moreover have "average_of 41 (41 + 39) = parseFloat (512 / 10)"
    using average_tie by simp
  ultimately show ?thesis by (simp add: uniform_day_report)
qed

theorem report_average_witness:
  "report [student_A, student_B] three_days (Some ''5A'') (Some ''2024-01-01'')
     (Some ''2024-01-03'') = Report three_days_summary \<and>
   (3 :: nat) = length (filter present
     (all_entries (find_records ''5A'' ''2024-01-01'' ''2024-01-03'' three_days))) \<and>
   (5 :: nat) = length
     (all_entries (find_records ''5A'' ''2024-01-01'' ''2024-01-03'' three_days)) \<and>
   average three_days_summary = 60 \<and>
   (\<exists>n :: int. average three_days_summary = parseFloat (of_int n / 10) \<and>
      \<bar>(of_int n :: rat) / 10 - 100 * of_nat 3 / of_nat 5\<bar> \<le> 1 / 20)"
proof -
  have fr: "find_records ''5A'' ''2024-01-01'' ''2024-01-03'' three_days = three_days"
    by (rule three_days_found) simp_all
  have h3: "(3 :: nat) = length (filter present
     (all_entries (find_records ''5A'' ''2024-01-01'' ''2024-01-03'' three_days)))"
    unfolding fr by (simp add: all_entries_def three_days_def stored_def)
  have h4: "(5 :: nat) = length
     (all_entries (find_records ''5A'' ''2024-01-01'' ''2024-01-03'' three_days))"
    unfolding fr by (simp add: all_entries_def three_days_def)
  have a: "average three_days_summary = 60" by (simp add: three_days_summary_def)
  from report_average [OF three_days_report refl h3 h4]
  have "\<exists>n :: int. average three_days_summary = parseFloat (of_int n / 10) \<and>
      \<bar>(of_int n :: rat) / 10 - 100 * of_nat 3 / of_nat 5\<bar> \<le> 1 / 20"
    by auto
  with three_days_report h3 h4 a show ?thesis by blast
qed

text \<open>
  C9. In a report that succeeds, \<open>totalStudentsTracked\<close> is the number of distinct
  students with at least one entry in the documents of the range: the statistics hold
  one pair for each of them, no key twice, and every pair has a positive total.
\<close>

theorem report_students_tracked:
  assumes "report students ledger (Some c) (Some f) (Some t) = Report s"
    and "es = all_entries (find_records c f t ledger)"
  shows "totalStudentsTracked s = card {k. 0 < entry_count k es} \<and>
         (\<exists>stats. tally_records students [] (find_records c f t ledger) = Inr stats \<and>
            totalStudentsTracked s = length stats \<and> distinct (map fst stats) \<and>
            (\<forall>x \<in> set stats. 0 < total_n (snd x)))"
proof -
  from report_Report [OF assms(1)] obtain stats where
    r: "tally_records students [] (find_records c f t ledger) = Inr stats"
       "s = summarise (length (find_records c f t ledger)) stats"
    by auto
  have t: "tallied stats es" using tally_records_ok [OF r(1)] assms(2) by simp
  have d: "distinct (map fst stats)" and k: "set (map fst stats) = studentId ` set es"
    using t by (simp_all add: tallied_def)
  have l: "totalStudentsTracked s = length stats" by (simp add: r(2) summarise_def Let_def)
  have "0 < entry_count k es \<longleftrightarrow> k \<in> studentId ` set es" for k
    using count_zero [of k es] by linarith
  then have "{k. 0 < entry_count k es} = studentId ` set es"
    by blast
  then have "card {k. 0 < entry_count k es} = card (set (map fst stats))" by (simp only: k)
  also have "\<dots> = length stats" using distinct_card [OF d] by simp
  finally have c: "totalStudentsTracked s = card {k. 0 < entry_count k es}" using l by simp
  have p: "0 < total_n (snd x)" if "x \<in> set stats" for x
  proof -
    have "map_of stats (fst x) = Some (snd x)" using d that by simp
    then have "total_n (snd x) = entry_count (fst x) es" using t by (simp add: tallied_def)
    moreover have "fst x \<in> studentId ` set es" using that k by force
    ultimately show ?thesis using count_zero [of "fst x" es] by simp
  qed
  show ?thesis using c r(1) l d p by blast
qed

theorem report_students_tracked_witness:
  "report [student_A, student_B] three_days (Some ''5A'') (Some ''2024-01-01'')
     (Some ''2024-01-03'') = Report three_days_summary \<and>
   totalStudentsTracked three_days_summary = 2 \<and>
   totalStudentsTracked three_days_summary =
     card {k. 0 < entry_count k
       (all_entries (find_records ''5A'' ''2024-01-01'' ''2024-01-03'' three_days))}"
proof -
  note t = report_students_tracked [OF three_days_report refl, THEN conjunct1]
  have "totalStudentsTracked three_days_summary = 2" by (simp add: three_days_summary_def)
  with three_days_report t show ?thesis by blast
qed

lemma doubled_day_tally:
  "tally_records [student_A] [] doubled_day =
     Inr [(''s1'', \<lparr>name = ''Aarav Kumar'', present_n = 1, total_n = 2\<rparr>)]"
  by code_simp

text \<open>
  C10. The total of a student in the statistics is the number of entries that name the
  student in the documents tallied, and the present count the number of those that are
  present: every entry counts, two entries of one student in one document count twice.
  So a total can exceed the number of documents, as it does for a single document that
  names a student twice.
\<close>

theorem tally_counts_every_entry:
  assumes "tally_records students [] recs = Inr stats" and "map_of stats k = Some x"
  shows "total_n x = length (filter (\<lambda>e. studentId e = k) (concat (map entries recs))) \<and>
         present_n x =
           length (filter (\<lambda>e. studentId e = k \<and> present e) (concat (map entries recs))) \<and>
         (\<exists>sts rs st y. tally_records sts [] rs = Inr st \<and> map_of st ''s1'' = Some y \<and>
            length rs < total_n y)"
proof -
  have t: "tallied stats (all_entries recs)" using assms(1) by (rule tally_records_ok)
  then have "total_n x = entry_count k (all_entries recs) \<and>
      present_n x = present_count k (all_entries recs)"
    using assms(2) by (simp add: tallied_def)
  moreover have "\<exists>sts rs st y. tally_records sts [] rs = Inr st \<and> map_of st ''s1'' = Some y \<and>
      length rs < total_n y"
  proof (intro exI conjI)
    show "tally_records [student_A] [] doubled_day =
        Inr [(''s1'', \<lparr>name = ''Aarav Kumar'', present_n = 1, total_n = 2\<rparr>)]"
      by (rule doubled_day_tally)
    show "map_of [(''s1'', \<lparr>name = ''Aarav Kumar'', present_n = 1, total_n = 2\<rparr>)] ''s1'' =
        Some \<lparr>name = ''Aarav Kumar'', present_n = 1, total_n = 2\<rparr>"
      by simp
    show "length doubled_day < total_n \<lparr>name = ''Aarav Kumar'', present_n = 1, total_n = 2\<rparr>"
      by (simp add: doubled_day_def)
  qed
  ultimately show ?thesis
    by (simp add: entry_count_def present_count_def all_entries_def)
qed

theorem tally_counts_every_entry_witness:
  "tally_records [student_A] [] doubled_day =
     Inr [(''s1'', \<lparr>name = ''Aarav Kumar'', present_n = 1, total_n = 2\<rparr>)] \<and>
   map_of [(''s1'', \<lparr>name = ''Aarav Kumar'', present_n = 1, total_n = 2\<rparr>)] ''s1'' =
     Some \<lparr>name = ''Aarav Kumar'', present_n = 1, total_n = 2\<rparr> \<and>
   total_n \<lparr>name = ''Aarav Kumar'', present_n = 1, total_n = 2\<rparr> =
     length (filter (\<lambda>e. studentId e = ''s1'') (concat (map entries doubled_day))) \<and>
   report [student_A] doubled_day (Some ''5A'') (Some ''2024-01-01'') (Some ''2024-01-01'') =
     Report \<lparr>average = 50, perfectCount = 0, below75Count = 1, chronicAbsenceCount = 0,
             days = 1, totalStudentsTracked = 1\<rparr>"
proof -
  have h2: "map_of [(''s1'', \<lparr>name = ''Aarav Kumar'', present_n = 1, total_n = 2\<rparr>)] ''s1'' =
      Some \<lparr>name = ''Aarav Kumar'', present_n = 1, total_n = 2\<rparr>"
    by simp
  note t = tally_counts_every_entry [OF doubled_day_tally h2, THEN conjunct1]
  have r: "report [student_A] doubled_day (Some ''5A'') (Some ''2024-01-01'')
      (Some ''2024-01-01'') =
      Report \<lparr>average = 50, perfectCount = 0, below75Count = 1, chronicAbsenceCount = 0,
              days = 1, totalStudentsTracked = 1\<rparr>"
    by code_simp
  show ?thesis by (intro conjI doubled_day_tally h2 t r)
qed

end
